theory Spec2Isabelle
  imports
    Complex_Main
    "HOL-Library.Multiset"
    "HOL-Library.List_Lexorder"
    "HOL-Library.Product_Lexorder"
    "HOL-Library.Log_Nat"
begin

section \<open>Strings of the runtime\<close>

text \<open>
  The conversion routes (the second module of \<^verbatim>\<open>part_000\<close>, lines 113 to 381) work on
  form fields, file names and file contents. A form field and a file name are a
  \<^typ>\<open>string\<close> of ASCII characters; a file's content is a list of bytes, written as a
  \<^typ>\<open>string\<close> too (a \<^typ>\<open>char\<close> is one byte). A form field that the request leaves out
  is \<open>None\<close>.
\<close>

type_synonym bytes = string

text \<open>\<^verbatim>\<open>field || dflt\<close>: an absent field and the empty string are both falsy.\<close>

definition field_or :: "string option \<Rightarrow> string \<Rightarrow> string" where
  "field_or v dflt = (case v of None \<Rightarrow> dflt | Some s \<Rightarrow> if s = [] then dflt else s)"

definition is_upper :: "char \<Rightarrow> bool" where
  "is_upper c = (65 \<le> (of_char c :: nat) \<and> (of_char c :: nat) \<le> 90)"

definition is_digit :: "char \<Rightarrow> bool" where
  "is_digit c = (48 \<le> (of_char c :: nat) \<and> (of_char c :: nat) \<le> 57)"

text \<open>\<^verbatim>\<open>String.prototype.toLowerCase\<close> on ASCII.\<close>

definition to_lower :: "char \<Rightarrow> char" where
  "to_lower c = (if is_upper c then char_of (of_char c + (32 :: nat)) else c)"

definition toLowerCase :: "string \<Rightarrow> string" where
  "toLowerCase s = map to_lower s"

text \<open>\<^verbatim>\<open>s.startsWith(p)\<close> and \<^verbatim>\<open>s.endsWith(p)\<close>.\<close>

definition startsWith :: "string \<Rightarrow> string \<Rightarrow> bool" where
  "startsWith s p = (take (length p) s = p)"

definition endsWith :: "string \<Rightarrow> string \<Rightarrow> bool" where
  "endsWith s p = (length p \<le> length s \<and> drop (length s - length p) s = p)"

text \<open>The white space that \<^verbatim>\<open>trim\<close> and \<^verbatim>\<open>parseInt\<close> skip (TAB, LF, VT, FF, CR, space).\<close>

definition is_space :: "char \<Rightarrow> bool" where
  "is_space c = ((of_char c :: nat) \<in> {9, 10, 11, 12, 13, 32})"

definition trim :: "string \<Rightarrow> string" where
  "trim s = rev (dropWhile is_space (rev (dropWhile is_space s)))"

text \<open>\<^verbatim>\<open>s.split(',')\<close>: the pieces between the separators; never the empty list.\<close>

fun split_on :: "char \<Rightarrow> string \<Rightarrow> string list" where
  "split_on sep [] = [[]]"
| "split_on sep (c # cs) =
     (if c = sep then [] # split_on sep cs
      else (case split_on sep cs of
              [] \<Rightarrow> [[c]]
            | p # ps \<Rightarrow> (c # p) # ps))"

text \<open>Decimal rendering of a non-negative integer, as a template literal prints it.\<close>

definition digit_char :: "nat \<Rightarrow> char" where
  "digit_char d = char_of (48 + d)"

fun dec :: "nat \<Rightarrow> string" where
  "dec n = (if n < 10 then [digit_char n] else dec (n div 10) @ [digit_char (n mod 10)])"

declare dec.simps [simp del]

definition digit_val :: "char \<Rightarrow> nat" where
  "digit_val c = of_char c - 48"

text \<open>The number a string of decimal digits denotes.\<close>

definition dec_val :: "string \<Rightarrow> nat" where
  "dec_val s = foldl (\<lambda>a c. 10 * a + digit_val c) 0 s"

text \<open>\<^verbatim>\<open>path.basename(p)\<close> for POSIX paths: the last component, trailing slashes dropped.\<close>

definition basename :: "string \<Rightarrow> string" where
  "basename p = rev (takeWhile (\<lambda>c. c \<noteq> CHR ''/'') (dropWhile (\<lambda>c. c = CHR ''/'') (rev p)))"

section \<open>Comparing and sorting names\<close>

text \<open>
  Both directory listings are sorted with
  \<^verbatim>\<open>.sort((a,b)=>a.localeCompare(b))\<close> (lines 265 and 349). \<^verbatim>\<open>localeCompare\<close> belongs
  to the runtime, not to the repository; it is modelled here for ASCII names as the
  root collation of the runtime's internationalisation library orders them:
  first by the primary weights of all characters (white space, then punctuation and
  symbols in the order of \<open>collation_order\<close>, then digits, then letters without regard
  to case), a proper prefix before its extensions; then, for strings equal so far, by
  case, lower case first. Characters outside \<open>collation_order\<close> (other control
  characters, bytes above 127) are not covered by the model; they are given weights
  after the letters so that the comparison stays total.
\<close>

definition collation_order :: string where
  "collation_order =
     [CHR 0x09, CHR 0x0A, CHR 0x0B, CHR 0x0C, CHR 0x0D]
     @ '' _-,;:!?.'' @ [CHR 0x27, CHR 0x22] @ ''()[]{}@*/''
     @ [CHR 0x5C] @ ''&#%'' @ [CHR 0x60] @ ''^+<=>|~$''
     @ ''0123456789abcdefghijklmnopqrstuvwxyz''"

fun index_of :: "'a \<Rightarrow> 'a list \<Rightarrow> nat" where
  "index_of x [] = 0"
| "index_of x (y # ys) = (if x = y then 0 else Suc (index_of x ys))"

definition primary :: "char \<Rightarrow> nat" where
  "primary c =
     (let l = to_lower c
      in if l \<in> set collation_order then index_of l collation_order
         else length collation_order + of_char l)"

definition tertiary :: "char \<Rightarrow> nat" where
  "tertiary c = (if is_upper c then 1 else 0)"

text \<open>Lexicographic comparison of two weight sequences: negative, zero or positive.\<close>

fun compare_weights :: "nat list \<Rightarrow> nat list \<Rightarrow> int" where
  "compare_weights [] [] = 0"
| "compare_weights [] (y # ys) = - 1"
| "compare_weights (x # xs) [] = 1"
| "compare_weights (x # xs) (y # ys) =
     (if x < y then - 1 else if y < x then 1 else compare_weights xs ys)"

definition localeCompare :: "string \<Rightarrow> string \<Rightarrow> int" where
  "localeCompare a b =
     (let p = compare_weights (map primary a) (map primary b)
      in if p \<noteq> 0 then p else compare_weights (map tertiary a) (map tertiary b))"

text \<open>
  \<^verbatim>\<open>Array.prototype.sort(cmp)\<close> is a stable sort: elements that compare equal keep
  their order. It is modelled as insertion sort, inserting from the right.
\<close>

fun insert_by :: "('a \<Rightarrow> 'a \<Rightarrow> int) \<Rightarrow> 'a \<Rightarrow> 'a list \<Rightarrow> 'a list" where
  "insert_by cmp x [] = [x]"
| "insert_by cmp x (y # ys) = (if cmp x y \<le> 0 then x # y # ys else y # insert_by cmp x ys)"

definition sort_by :: "('a \<Rightarrow> 'a \<Rightarrow> int) \<Rightarrow> 'a list \<Rightarrow> 'a list" where
  "sort_by cmp xs = foldr (insert_by cmp) xs []"

text \<open>The sort key that \<open>localeCompare\<close> compares by, in the lexicographic orders of the library.\<close>

definition ckey :: "string \<Rightarrow> nat list \<times> nat list" where
  "ckey s = (map primary s, map tertiary s)"

section \<open>Server state and responses\<close>

text \<open>
  The state the handlers share: the per-session chunk directories under
  \<^verbatim>\<open>upload_chunks/\<close> (a directory is its listing, name and content of each file, in
  the order the files were created; a session without a directory is \<open>None\<close>), the
  other scratch files by path, the map \<^verbatim>\<open>tempStore\<close> (line 126), the working directories
  made by \<^verbatim>\<open>mkdtemp\<close>, and the argument lists of the external processes started.
\<close>

record server =
  chunk_dirs :: "string \<rightharpoonup> (string \<times> bytes) list"
  files :: "string \<rightharpoonup> bytes"
  tempStore :: "string \<rightharpoonup> string"
  work_dirs :: "string \<rightharpoonup> (string \<times> bytes) list"
  exec_log :: "string list list"

datatype response =
    JsonError nat string
  | ChunkStored string "string option"
  | Assembled string
  | ZipArchive "(string \<times> bytes) list"
  | Aborted

section \<open>Chunk upload (lines 235 to 254)\<close>

record chunk_request =
  cr_uploadId :: "string option"
  cr_chunkIndex :: "string option"
  cr_chunk :: "bytes option"

text \<open>Writing a file into a directory: an existing name is overwritten in place.\<close>

definition write_entry :: "string \<Rightarrow> bytes \<Rightarrow> (string \<times> bytes) list \<Rightarrow> (string \<times> bytes) list" where
  "write_entry name data listing =
     (if name \<in> fst ` set listing
      then map (\<lambda>e. if fst e = name then (name, data) else e) listing
      else listing @ [(name, data)])"

text \<open>
  \<open>rnd\<close> is the value of \<^verbatim>\<open>crypto.randomBytes(8).toString('hex')\<close> and \<open>now\<close> that of
  \<^verbatim>\<open>Date.now()\<close>. Without a file part the storage engine is not run, and the handler
  fails on \<^verbatim>\<open>req.file.path\<close> unless the request names its session.
\<close>

definition upload_chunk :: "string \<Rightarrow> nat \<Rightarrow> server \<Rightarrow> chunk_request \<Rightarrow> server \<times> response" where
  "upload_chunk rnd now s req =
     (case cr_chunk req of
        None \<Rightarrow>
          (if field_or (cr_uploadId req) [] = [] then (s, JsonError 500 ''Chunk upload failed'')
           else (s, ChunkStored (field_or (cr_uploadId req) []) (cr_chunkIndex req)))
      | Some data \<Rightarrow>
          (let uploadId = field_or (cr_uploadId req) rnd;
               name = ''chunk_'' @ field_or (cr_chunkIndex req) (dec now);
               listing = (case chunk_dirs s uploadId of None \<Rightarrow> [] | Some l \<Rightarrow> l)
           in (s\<lparr>chunk_dirs := (chunk_dirs s)(uploadId \<mapsto> write_entry name data listing)\<rparr>,
               ChunkStored uploadId (cr_chunkIndex req))))"

text \<open>The request that stores chunk \<open>(index, data)\<close> in session \<open>uid\<close>.\<close>

definition chunk_req :: "string \<Rightarrow> string \<times> bytes \<Rightarrow> chunk_request" where
  "chunk_req uid c = \<lparr>cr_uploadId = Some uid, cr_chunkIndex = Some (fst c), cr_chunk = Some (snd c)\<rparr>"

text \<open>The chunks \<open>cs\<close> uploaded to session \<open>uid\<close> one after the other, in list order.\<close>

fun upload_chunks :: "string \<Rightarrow> nat \<Rightarrow> server \<Rightarrow> string \<Rightarrow> (string \<times> bytes) list \<Rightarrow> server" where
  "upload_chunks rnd now s uid [] = s"
| "upload_chunks rnd now s uid (c # cs) =
     upload_chunks rnd (Suc now) (fst (upload_chunk rnd now s (chunk_req uid c))) uid cs"

text \<open>
  An index under which a client can store a chunk: not empty, without the path
  separator, and of characters that the model of the comparison covers.
\<close>

definition valid_index :: "string \<Rightarrow> bool" where
  "valid_index i =
     (i \<noteq> [] \<and> CHR ''/'' \<notin> set i \<and> list_all (\<lambda>c. to_lower c \<in> set collation_order) i)"

section \<open>Assembly (lines 128 to 139 and 259 to 285)\<close>

record assemble_request =
  ar_uploadId :: "string option"
  ar_filename :: "string option"

definition makeTempKey :: "string \<Rightarrow> string \<Rightarrow> string" where
  "makeTempKey uploadId filename = uploadId @ ''__'' @ basename filename"

text \<open>
  \<^verbatim>\<open>appendPartToFile\<close> pipes one part into the output stream; a part that cannot be read
  rejects the promise (\<open>None\<close>).
\<close>

definition appendPartToFile :: "(string \<times> bytes) list \<Rightarrow> string \<Rightarrow> bytes \<Rightarrow> bytes option" where
  "appendPartToFile listing part out =
     (case map_of listing part of None \<Rightarrow> None | Some d \<Rightarrow> Some (out @ d))"

fun append_parts :: "(string \<times> bytes) list \<Rightarrow> string list \<Rightarrow> bytes \<Rightarrow> bytes option" where
  "append_parts listing [] out = Some out"
| "append_parts listing (p # ps) out =
     (case appendPartToFile listing p out of
        None \<Rightarrow> None
      | Some out' \<Rightarrow> append_parts listing ps out')"

text \<open>The names of a session's stored chunks, as line 265 lists and sorts them.\<close>

definition chunk_parts :: "(string \<times> bytes) list \<Rightarrow> string list" where
  "chunk_parts listing =
     sort_by localeCompare (filter (\<lambda>f. startsWith f ''chunk_'') (map fst listing))"

text \<open>
  \<open>rnd\<close> is the value of \<^verbatim>\<open>crypto.randomBytes(10).toString('hex')\<close>. The parts are read
  from the listing they were taken from, so the rejecting branch is never reached from
  here; it is kept because the source has it.
\<close>

definition assemble_upload :: "string \<Rightarrow> server \<Rightarrow> assemble_request \<Rightarrow> server \<times> response" where
  "assemble_upload rnd s req =
     (let uploadId = field_or (ar_uploadId req) [];
          filename = field_or (ar_filename req) []
      in if uploadId = [] \<or> filename = []
         then (s, JsonError 400 ''uploadId and filename required'')
         else (case chunk_dirs s uploadId of
                 None \<Rightarrow> (s, JsonError 400 ''No chunks found for uploadId'')
               | Some listing \<Rightarrow>
                   (let parts = chunk_parts listing
                    in if parts = [] then (s, JsonError 400 ''No chunks found'')
                       else (let outFile = ''assembled_uploads/'' @ rnd @ ''_'' @ basename filename
                             in case append_parts listing parts [] of
                                  None \<Rightarrow> (s, JsonError 500 ''Assemble failed'')
                                | Some data \<Rightarrow>
                                    (let rest = filter (\<lambda>e. fst e \<notin> set parts) listing;
                                         key = makeTempKey uploadId filename
                                     in (s\<lparr>chunk_dirs := (chunk_dirs s)
                                              (uploadId := (if rest = [] then None else Some rest)),
                                           files := (files s)(outFile \<mapsto> data),
                                           tempStore := (tempStore s)(key \<mapsto> outFile)\<rparr>,
                                         Assembled key))))))"

text \<open>The chunks a session holds: none when it has no directory.\<close>

definition stored_chunks :: "server \<Rightarrow> string \<Rightarrow> string list" where
  "stored_chunks s uploadId =
     (case chunk_dirs s uploadId of None \<Rightarrow> [] | Some listing \<Rightarrow> chunk_parts listing)"

section \<open>Image to document: request parameters (lines 166 to 170)\<close>

text \<open>A number of the runtime where it may be \<^verbatim>\<open>NaN\<close>; the integers stand for themselves.\<close>

datatype jsnum = NaN | Num int

text \<open>\<^verbatim>\<open>Math.min\<close> and \<^verbatim>\<open>Math.max\<close> answer \<^verbatim>\<open>NaN\<close> as soon as one argument is \<^verbatim>\<open>NaN\<close>.\<close>

fun js_min :: "jsnum \<Rightarrow> jsnum \<Rightarrow> jsnum" where
  "js_min (Num a) (Num b) = Num (min a b)"
| "js_min _ _ = NaN"

fun js_max :: "jsnum \<Rightarrow> jsnum \<Rightarrow> jsnum" where
  "js_max (Num a) (Num b) = Num (max a b)"
| "js_max _ _ = NaN"

text \<open>
  \<^verbatim>\<open>parseInt(s, 10)\<close>: leading white space is skipped, one sign is read, then the
  longest run of decimal digits; with no digit there the result is \<^verbatim>\<open>NaN\<close>.
\<close>

definition parseInt10 :: "string \<Rightarrow> jsnum" where
  "parseInt10 s =
     (let t = dropWhile is_space s;
          neg = (t \<noteq> [] \<and> hd t = CHR ''-'');
          u = (if t \<noteq> [] \<and> (hd t = CHR ''-'' \<or> hd t = CHR ''+'') then tl t else t);
          ds = takeWhile is_digit u
      in if ds = [] then NaN
         else Num (if neg then - int (dec_val ds) else int (dec_val ds)))"

text \<open>Line 169.\<close>

definition quality_of :: "string option \<Rightarrow> jsnum" where
  "quality_of q = js_max (Num 5) (js_min (Num 100) (parseInt10 (field_or q ''80'')))"

text \<open>
  Line 168, from the value of \<^verbatim>\<open>parseFloat(req.body.margin || '0')\<close>, which is \<open>None\<close>
  when it is \<^verbatim>\<open>NaN\<close>: \<^verbatim>\<open>Math.max(0, parsed || 0)\<close>.
\<close>

definition margin_of :: "rat option \<Rightarrow> rat" where
  "margin_of parsed = max 0 (case parsed of None \<Rightarrow> 0 | Some x \<Rightarrow> x)"

section \<open>Image to document: page layout (lines 183 to 222)\<close>

text \<open>
  The numbers of the layout are binary64 floating-point numbers. Such a number is a
  rational here, and an arithmetic operation of the runtime is the exact operation
  followed by \<open>fl53\<close>, the rounding to the nearest number with a significand of 53
  bits, a tie going to the even significand. The range of the exponent is not bounded:
  a result is the runtime's as long as that neither overflows nor is subnormal.
\<close>

text \<open>The exponent of \<open>x \<noteq> 0\<close>: the \<open>e\<close> with \<open>2 ^ e \<le> \<bar>x\<bar> < 2 ^ (e + 1)\<close>.\<close>

definition exponent :: "rat \<Rightarrow> int" where
  "exponent x =
     (if 1 \<le> \<bar>x\<bar> then bitlen \<lfloor>\<bar>x\<bar>\<rfloor> - 1 else - bitlen (\<lceil>1 / \<bar>x\<bar>\<rceil> - 1))"

text \<open>The nearest integer, a half going to the even neighbour.\<close>

definition round_even :: "rat \<Rightarrow> int" where
  "round_even x =
     (let n = \<lfloor>x\<rfloor>; r = x - of_int n
      in if r < 1 / 2 then n else if 1 / 2 < r then n + 1 else if even n then n else n + 1)"

definition fl53 :: "rat \<Rightarrow> rat" where
  "fl53 x =
     (if x = 0 then 0
      else of_int (round_even (x / 2 powi (exponent x - 52))) * 2 powi (exponent x - 52))"

text \<open>
  What \<^verbatim>\<open>presets[name]\<close> finds for a lower-case name: the dimensions of one of the two
  presets, a property that every object inherits (truthy, but without \<^verbatim>\<open>slice\<close>), or
  nothing. The literals \<^verbatim>\<open>595.28\<close> and \<^verbatim>\<open>841.89\<close> denote the binary64 numbers nearest to
  them.
\<close>

datatype preset_lookup = Dims rat rat | Inherited | Missing

definition presets :: "string \<Rightarrow> preset_lookup" where
  "presets name =
     (if name = ''a4'' then Dims (fl53 (59528 / 100)) (fl53 (84189 / 100))
      else if name = ''letter'' then Dims 612 792
      else if name = ''constructor'' \<or> name = ''__proto__'' then Inherited
      else Missing)"

text \<open>
  \<^verbatim>\<open>Math.round\<close>: the nearest integer, a half rounded up. Its result is an integer, which
  the runtime holds exactly.
\<close>

definition js_round :: "rat \<Rightarrow> int" where
  "js_round x = \<lfloor>x + 1 / 2\<rfloor>"

text \<open>\<^verbatim>\<open>meta.width || 800\<close>: a missing or zero dimension takes the default.\<close>

definition dim_or :: "nat option \<Rightarrow> nat \<Rightarrow> nat" where
  "dim_or d dflt = (case d of None \<Rightarrow> dflt | Some n \<Rightarrow> if n = 0 then dflt else n)"

text \<open>Line 208: the two quotients are rounded, their minimum with 1 is one of the three.\<close>

definition scale_of :: "rat \<Rightarrow> rat \<Rightarrow> nat \<Rightarrow> nat \<Rightarrow> rat" where
  "scale_of maxW maxH width height =
     min (min (fl53 (maxW / of_nat width)) (fl53 (maxH / of_nat height))) 1"

record placement =
  page_w :: rat
  page_h :: rat
  draw_x :: rat
  draw_y :: rat
  draw_w :: rat
  draw_h :: rat

datatype layout_error = NotAFunction

text \<open>
  The page and the placement of one image: \<open>pageSize\<close> and \<open>orientation\<close> are the form
  fields, \<open>margin\<close> the value of line 168, \<open>mw\<close> and \<open>mh\<close> the dimensions the decoder
  reports, integers that the runtime holds exactly. In the preset branch each operation
  of lines 206 to 212 is rounded as the runtime rounds it; the two sums of the
  automatic branch are kept exact.
\<close>

definition layout ::
  "string option \<Rightarrow> string option \<Rightarrow> rat \<Rightarrow> nat option \<Rightarrow> nat option \<Rightarrow> layout_error + placement" where
  "layout pageSize orientation margin mw mh =
     (let ps = toLowerCase (field_or pageSize ''auto'');
          orient = field_or orientation ''portrait'';
          width = dim_or mw 800;
          height = dim_or mh 600
      in if ps \<noteq> ''auto'' \<and> presets ps \<noteq> Missing
         then (case presets ps of
                 Dims pw ph \<Rightarrow>
                   (let dims0 = (if orient = ''landscape'' then ph else pw);
                        dims1 = (if orient = ''landscape'' then pw else ph);
                        maxW = fl53 (dims0 - fl53 (margin * 2));
                        maxH = fl53 (dims1 - fl53 (margin * 2));
                        scale = scale_of maxW maxH width height;
                        drawW = js_round (fl53 (of_nat width * scale));
                        drawH = js_round (fl53 (of_nat height * scale));
                        x = js_round (fl53 (fl53 (dims0 - of_int drawW) / 2));
                        y = js_round (fl53 (fl53 (dims1 - of_int drawH) / 2))
                    in Inr \<lparr>page_w = dims0, page_h = dims1,
                            draw_x = of_int x, draw_y = of_int y,
                            draw_w = of_int drawW, draw_h = of_int drawH\<rparr>)
               | _ \<Rightarrow> Inl NotAFunction)
         else (let ptsW = max 1 (js_round (of_nat width));
                   ptsH = max 1 (js_round (of_nat height))
               in Inr \<lparr>page_w = of_int ptsW + margin * 2, page_h = of_int ptsH + margin * 2,
                       draw_x = margin, draw_y = margin,
                       draw_w = of_int ptsW, draw_h = of_int ptsH\<rparr>))"

section \<open>Image to document: delivery of the document (lines 172 to 181 and 225)\<close>

text \<open>
  The document writer emits its output as \<^verbatim>\<open>data\<close> events and a final \<^verbatim>\<open>end\<close> event.
  The handler's state is the array \<^verbatim>\<open>chunks\<close> and what it has handed to the response:
  the headers set and the bodies sent, in order.
\<close>

datatype doc_event = Data bytes | End

record delivery =
  dl_chunks :: "bytes list"
  dl_headers :: "(string \<times> string) list"
  dl_sent :: "bytes list"

definition delivery_start :: delivery where
  "delivery_start = \<lparr>dl_chunks = [], dl_headers = [], dl_sent = []\<rparr>"

definition on_data :: "delivery \<Rightarrow> bytes \<Rightarrow> delivery" where
  "on_data d c = d\<lparr>dl_chunks := dl_chunks d @ [c]\<rparr>"

definition on_end :: "string \<Rightarrow> delivery \<Rightarrow> delivery" where
  "on_end outputName d =
     (let pdfBuffer = concat (dl_chunks d)
      in d\<lparr>dl_headers := dl_headers d @
              [(''Content-Disposition'', ''attachment; filename='' @ [CHR 0x22] @ outputName @ [CHR 0x22]),
               (''Content-Type'', ''application/pdf'')],
            dl_sent := dl_sent d @ [pdfBuffer]\<rparr>)"

fun deliver :: "string \<Rightarrow> delivery \<Rightarrow> doc_event list \<Rightarrow> delivery" where
  "deliver outputName d [] = d"
| "deliver outputName d (Data c # es) = deliver outputName (on_data d c) es"
| "deliver outputName d (End # es) = deliver outputName (on_end outputName d) es"

text \<open>The bytes that have left for the client, and the bytes held in memory.\<close>

definition emitted :: "delivery \<Rightarrow> bytes" where
  "emitted d = concat (dl_sent d)"

definition buffered :: "delivery \<Rightarrow> bytes" where
  "buffered d = concat (dl_chunks d)"

section \<open>Document to images (lines 300 to 379)\<close>

text \<open>
  The rasterizer \<^verbatim>\<open>pdftoppm\<close> is an external program: whether it is installed, whether
  \<^verbatim>\<open>pdftoppm -v\<close> exits with success, and the page images it renders for a document
  (\<open>None\<close> when it exits with an error) are parameters, with the two random strings the
  handler draws. So is the order in which the archiver's \<^verbatim>\<open>stat\<close> calls on the files
  queued for the archive return: \<open>stat_order\<close> takes the queue, each file with its entry
  name, and gives it back in that order.
\<close>

record environment =
  pdftoppm_installed :: bool
  pdftoppm_version_ok :: bool
  pdftoppm_render :: "bytes \<Rightarrow> bytes list option"
  rand_hex :: string
  mkdtemp_suffix :: string
  stat_order :: "(string \<times> string) list \<Rightarrow> (string \<times> string) list"

record pdf_request =
  pr_tempKeys :: "string option"
  pr_file :: "(string \<times> bytes) option"

definition checkPdftoppmAvailable :: "environment \<Rightarrow> bool" where
  "checkPdftoppmAvailable env = (pdftoppm_installed env \<and> pdftoppm_version_ok env)"

text \<open>Lines 154 and 314: the keys of the \<^verbatim>\<open>tempKeys\<close> field.\<close>

definition parse_keys :: "string \<Rightarrow> string list" where
  "parse_keys raw = filter (\<lambda>k. k \<noteq> []) (map trim (split_on CHR '','' raw))"

text \<open>
  Lines 312 to 328: the path of the source document, or the response that ends the
  request. An uploaded document is written to a scratch file first.
\<close>

definition resolve_source :: "environment \<Rightarrow> server \<Rightarrow> pdf_request \<Rightarrow> response + (server \<times> string)" where
  "resolve_source env s req =
     (if field_or (pr_tempKeys req) [] \<noteq> []
      then (case parse_keys (field_or (pr_tempKeys req) []) of
              [] \<Rightarrow> Inl (JsonError 400 ''No tempKeys provided'')
            | k # later \<Rightarrow>
                (case tempStore s k of
                   None \<Rightarrow> Inl (JsonError 400 ''Missing assembled file for provided tempKey'')
                 | Some p \<Rightarrow>
                     if p = [] then Inl (JsonError 400 ''Missing assembled file for provided tempKey'')
                     else Inr (s, p)))
      else (case pr_file req of
              Some (originalname, buffer) \<Rightarrow>
                (let outPath = ''pdf_to_images/'' @ rand_hex env @ ''_'' @ originalname
                 in Inr (s\<lparr>files := (files s)(outPath \<mapsto> buffer)\<rparr>, outPath))
            | None \<Rightarrow> Inl (JsonError 400 ''No PDF uploaded'')))"

text \<open>
  What \<^verbatim>\<open>pdftoppm -png -r 150 input prefix\<close> leaves in the working directory for the
  rendered pages: page \<open>n\<close> of \<open>K\<close> is \<^verbatim>\<open>page-<n>.png\<close>, the number padded with zeros to
  the number of digits of \<open>K\<close>. The naming is the external program's.
\<close>

definition pad_left :: "nat \<Rightarrow> string \<Rightarrow> string" where
  "pad_left w s = replicate (w - length s) CHR ''0'' @ s"

definition pdftoppm_name :: "nat \<Rightarrow> nat \<Rightarrow> string" where
  "pdftoppm_name K n = ''page-'' @ pad_left (length (dec K)) (dec n) @ ''.png''"

definition pdftoppm_files :: "bytes list \<Rightarrow> (string \<times> bytes) list" where
  "pdftoppm_files pages =
     map (\<lambda>i. (pdftoppm_name (length pages) (Suc i), pages ! i)) [0..<length pages]"

text \<open>
  Lines 360 to 364: \<^verbatim>\<open>archive.file\<close> is called for the sorted files in order, the file at
  position \<open>idx\<close> under the entry name \<^verbatim>\<open>page_<idx+1>.png\<close>.
\<close>

fun queued_files :: "nat \<Rightarrow> string list \<Rightarrow> (string \<times> string) list" where
  "queued_files idx [] = []"
| "queued_files idx (fname # rest) =
     (fname, ''page_'' @ dec (idx + 1) @ ''.png'') # queued_files (idx + 1) rest"

text \<open>
  The archiver does not append a queued file at once: it stats the queued files, several
  at a time, and appends each file under its entry name when its \<^verbatim>\<open>stat\<close> returns. The
  entries of the archive are the files read in that order; a file that cannot be read
  makes the archiver fail.
\<close>

fun archive_entries :: "(string \<times> bytes) list \<Rightarrow> (string \<times> string) list \<Rightarrow> (string \<times> bytes) list option" where
  "archive_entries listing [] = Some []"
| "archive_entries listing (job # rest) =
     (case map_of listing (fst job) of
        None \<Rightarrow> None
      | Some d \<Rightarrow>
          (case archive_entries listing rest of
             None \<Rightarrow> None
           | Some es \<Rightarrow> Some ((snd job, d) # es)))"

text \<open>Lines 349 to 365, from the listing of the working directory in any order.\<close>

definition collect_and_archive :: "environment \<Rightarrow> (string \<times> bytes) list \<Rightarrow> response" where
  "collect_and_archive env listing =
     (let fs = sort_by localeCompare
                 (filter (\<lambda>f. endsWith (toLowerCase f) ''.png'') (map fst listing))
      in if fs = [] then JsonError 500 ''No images generated from PDF''
         else (case archive_entries listing (stat_order env (queued_files 0 fs)) of
                 None \<Rightarrow> Aborted
               | Some es \<Rightarrow> ZipArchive es))"

definition probe_args :: "string list" where
  "probe_args = [''pdftoppm'', ''-v'']"

definition rasterize_args :: "string \<Rightarrow> string \<Rightarrow> string list" where
  "rasterize_args pdfPath prefix = [''pdftoppm'', ''-png'', ''-r'', ''150'', pdfPath, prefix]"

definition unavailable_message :: string where
  "unavailable_message =
     ''Server requires `pdftoppm` (Poppler). Please install poppler-utils (pdftoppm).''"

text \<open>
  The handler. The rasterizer reads the document from its path; a path without a file,
  or a program that is not installed, makes the run fail, which the handler answers
  with its catch-all response.
\<close>

definition pdf_to_images :: "environment \<Rightarrow> server \<Rightarrow> pdf_request \<Rightarrow> server \<times> response" where
  "pdf_to_images env s req =
     (case resolve_source env s req of
        Inl r \<Rightarrow> (s, r)
      | Inr (s1, pdfPath) \<Rightarrow>
          (let s2 = s1\<lparr>exec_log := exec_log s1 @ [probe_args]\<rparr>
           in if \<not> checkPdftoppmAvailable env then (s2, JsonError 500 unavailable_message)
              else (let workDir = ''pdf_images_'' @ mkdtemp_suffix env;
                        prefix = workDir @ ''/page'';
                        s3 = s2\<lparr>work_dirs := (work_dirs s2)(workDir \<mapsto> []),
                                exec_log := exec_log s2 @ [rasterize_args pdfPath prefix]\<rparr>
                    in case (case files s3 pdfPath of
                               None \<Rightarrow> None
                             | Some document \<Rightarrow> pdftoppm_render env document) of
                         None \<Rightarrow> (s3, JsonError 500 ''PDF to images conversion failed'')
                       | Some pages \<Rightarrow>
                           (let listing = pdftoppm_files pages
                            in (s3\<lparr>work_dirs := (work_dirs s3)(workDir \<mapsto> listing)\<rparr>,
                                collect_and_archive env listing)))))"

text \<open>The registry holds the paths of assembled files, which are never empty.\<close>

definition registry_ok :: "server \<Rightarrow> bool" where
  "registry_ok s = ([] \<notin> ran (tempStore s))"

text \<open>The state of a server that has just started: nothing stored, nothing run.\<close>

definition empty_server :: server where
  "empty_server =
     \<lparr>chunk_dirs = Map.empty, files = Map.empty, tempStore = Map.empty,
      work_dirs = Map.empty, exec_log = []\<rparr>"

section \<open>Quality of the re-encoding\<close>

lemma quality_of_in_range:
  assumes "parseInt10 (field_or q ''80'') = Num n"
  shows "\<exists>v. quality_of q = Num v \<and> 5 \<le> v \<and> v \<le> 100"
  using assms by (simp add: quality_of_def)

lemma quality_of_default: "quality_of None = Num 80"
  by (simp add: quality_of_def parseInt10_def field_or_def is_space_def is_digit_def
      dec_val_def digit_val_def)

text \<open>
  C2. The quality handed to the encoder is meant to lie between 1 and 100, with 80 for
  a request that leaves the field out. Line 169 clamps what \<^verbatim>\<open>parseInt\<close> returns into
  5 to 100, and 80 is the default (\<open>quality_of_in_range\<close>, \<open>quality_of_default\<close>); but a
  field without a leading number parses to \<^verbatim>\<open>NaN\<close>, which \<^verbatim>\<open>Math.min\<close> and \<^verbatim>\<open>Math.max\<close>
  pass on, so the encoder is called with \<^verbatim>\<open>NaN\<close>: no number of the range. Line 168
  guards the margin against the same case with \<^verbatim>\<open>|| 0\<close>.
\<close>

theorem quality_nan_for_non_numeric_field: "quality_of (Some ''abc'') = NaN"
  by (simp add: quality_of_def parseInt10_def field_or_def is_space_def is_digit_def)

section \<open>Page layout\<close>

lemma margin_of_nonneg: "0 \<le> margin_of parsed"
  by (simp add: margin_of_def)

lemma floor_rat_numeral: "\<lfloor>(numeral a :: rat) / numeral b\<rfloor> = numeral a div numeral b"
  using floor_divide_of_int_eq [of "numeral a" "numeral b", where ?'a = rat] by simp

lemma floor_rat_one: "\<lfloor>(1 :: rat) / numeral b\<rfloor> = 1 div numeral b"
  using floor_divide_of_int_eq [of 1 "numeral b", where ?'a = rat] by simp


lemma js_round_le: "of_int (js_round x) \<le> x + 1 / 2"
  by (simp add: js_round_def)

lemma dim_or_pos: "0 < d \<Longrightarrow> 0 < dim_or v d"
  by (simp add: dim_or_def split: option.splits)

text \<open>
  The rounding \<open>fl53\<close>: the exponent it takes is the one of its argument, its relative
  error is at most \<open>1 / 2 ^ 53\<close>, and it leaves a number with a significand of at most 53 bits
  as it is.
\<close>

lemma bitlen_pos:
  assumes "0 < n"
  shows "0 < bitlen n"
proof (rule ccontr)
  assume "\<not> 0 < bitlen n"
  then have "nat (bitlen n) = 0" by simp
  with bitlen_bounds [OF assms] have "n < 1" by simp
  with assms show False by simp
qed

lemma exponent_le:
  assumes "x \<noteq> 0"
  shows "2 powi exponent x \<le> \<bar>x\<bar>"
proof (cases "1 \<le> \<bar>x\<bar>")
  case True
  let ?n = "\<lfloor>\<bar>x\<bar>\<rfloor>"
  from True have n: "0 < ?n" by simp
  then have b: "2 ^ nat (bitlen ?n - 1) \<le> ?n"
    using bitlen_bounds [of ?n] by simp
  from n have "0 < bitlen ?n" by (rule bitlen_pos)
  then have "(2::rat) powi (bitlen ?n - 1) = 2 ^ nat (bitlen ?n - 1)"
    by (simp add: power_int_def)
  also have "\<dots> = of_int (2 ^ nat (bitlen ?n - 1))" by simp
  also have "\<dots> \<le> of_int ?n" using b by (simp only: of_int_le_iff)
  also have "\<dots> \<le> \<bar>x\<bar>" by simp
  finally show ?thesis using True by (simp add: exponent_def)
next
  case False
  let ?m = "\<lceil>1 / \<bar>x\<bar>\<rceil>"
  let ?L = "bitlen (?m - 1)"
  from assms have pos: "0 < \<bar>x\<bar>" by simp
  with False have "1 < 1 / \<bar>x\<bar>" by simp
  then have "1 < ?m" by (simp add: less_ceiling_iff)
  then have m: "0 < ?m - 1" by simp
  then have "?m - 1 < 2 ^ nat ?L"
    using bitlen_bounds [of "?m - 1"] by simp
  then have "?m \<le> 2 ^ nat ?L" by simp
  then have "(of_int ?m :: rat) \<le> of_int (2 ^ nat ?L)" by (simp only: of_int_le_iff)
  also have "\<dots> = 2 ^ nat ?L" by simp
  finally have "(of_int ?m :: rat) \<le> 2 ^ nat ?L" .
  with le_of_int_ceiling [of "1 / \<bar>x\<bar>"] have "1 / \<bar>x\<bar> \<le> 2 ^ nat ?L"
    by (rule order_trans)
  then have "1 \<le> 2 ^ nat ?L * \<bar>x\<bar>"
    using pos by (simp add: divide_le_eq)
  then have "1 / 2 ^ nat ?L \<le> \<bar>x\<bar>"
    by (simp add: divide_le_eq mult.commute)
  moreover have "0 \<le> ?L" by (rule bitlen_nonneg)
  then have "(2::rat) powi (- ?L) = 1 / 2 ^ nat ?L"
    by (simp add: power_int_def field_simps)
  ultimately show ?thesis using False by (simp add: exponent_def)
qed

lemma exponent_gt:
  assumes "x \<noteq> 0"
  shows "\<bar>x\<bar> < 2 powi (exponent x + 1)"
proof (cases "1 \<le> \<bar>x\<bar>")
  case True
  let ?n = "\<lfloor>\<bar>x\<bar>\<rfloor>"
  from True have n: "0 < ?n" by simp
  then have "?n < 2 ^ nat (bitlen ?n)"
    using bitlen_bounds [of ?n] by simp
  then have "?n + 1 \<le> 2 ^ nat (bitlen ?n)" by simp
  then have "(of_int (?n + 1) :: rat) \<le> of_int (2 ^ nat (bitlen ?n))" by (simp only: of_int_le_iff)
  then have "\<bar>x\<bar> < 2 ^ nat (bitlen ?n)"
    using floor_correct [of "\<bar>x\<bar>"] by simp
  moreover have "0 \<le> bitlen ?n" by (rule bitlen_nonneg)
  then have "(2::rat) powi (bitlen ?n) = 2 ^ nat (bitlen ?n)"
    by (simp add: power_int_def)
  ultimately show ?thesis using True by (simp add: exponent_def)
next
  case False
  let ?m = "\<lceil>1 / \<bar>x\<bar>\<rceil>"
  let ?L = "bitlen (?m - 1)"
  from assms have pos: "0 < \<bar>x\<bar>" by simp
  with False have "1 < 1 / \<bar>x\<bar>" by simp
  then have "1 < ?m" by (simp add: less_ceiling_iff)
  then have m: "0 < ?m - 1" by simp
  then have b: "2 ^ nat (?L - 1) \<le> ?m - 1"
    using bitlen_bounds [of "?m - 1"] by simp
  from m have L: "0 < ?L" by (rule bitlen_pos)
  have "(of_int (2 ^ nat (?L - 1)) :: rat) \<le> of_int (?m - 1)"
    using b by (simp only: of_int_le_iff)
  also have "\<dots> < 1 / \<bar>x\<bar>"
    using ceiling_correct [of "1 / \<bar>x\<bar>"] by simp
  finally have "2 ^ nat (?L - 1) * \<bar>x\<bar> < 1"
    using pos by (simp add: less_divide_eq)
  then have "\<bar>x\<bar> < 1 / 2 ^ nat (?L - 1)"
    by (simp add: less_divide_eq mult.commute)
  moreover have "(2::rat) powi (- ?L + 1) = 1 / 2 ^ nat (?L - 1)"
    using L by (simp add: power_int_def field_simps)
  ultimately show ?thesis using False by (simp add: exponent_def)
qed

lemma round_even_error: "\<bar>of_int (round_even x) - x\<bar> \<le> 1 / 2"
proof -
  have "of_int \<lfloor>x\<rfloor> \<le> x" and "x < of_int \<lfloor>x\<rfloor> + 1" by linarith+
  then show ?thesis
    by (auto simp: round_even_def Let_def)
qed

lemma round_even_of_int: "round_even (of_int n) = n"
  by (simp add: round_even_def)

lemma fl53_error: "\<bar>fl53 x - x\<bar> \<le> \<bar>x\<bar> / 2 ^ 53"
proof (cases "x = 0")
  case True
  then show ?thesis by (simp add: fl53_def)
next
  case False
  let ?q = "(2::rat) powi (exponent x - 52)"
  have q: "0 < ?q" by simp
  have "fl53 x - x = (of_int (round_even (x / ?q)) - x / ?q) * ?q"
    using False q by (simp add: fl53_def field_simps)
  then have "\<bar>fl53 x - x\<bar> = \<bar>of_int (round_even (x / ?q)) - x / ?q\<bar> * ?q"
    using q by (simp add: abs_mult)
  also have "\<dots> \<le> 1 / 2 * ?q"
    using round_even_error [of "x / ?q"] q by (intro mult_right_mono) simp_all
  also have "\<dots> = 2 powi exponent x / 2 ^ 53"
    by (simp add: power_int_diff)
  also have "\<dots> \<le> \<bar>x\<bar> / 2 ^ 53"
    using exponent_le [OF False] by (simp add: divide_right_mono)
  finally show ?thesis .
qed

lemma fl53_exact:
  assumes "\<bar>n\<bar> < 2 ^ 53"
  shows "fl53 (of_int n * 2 powi k) = of_int n * 2 powi k"
proof (cases "n = 0")
  case True
  then show ?thesis by (simp add: fl53_def)
next
  case False
  let ?x = "of_int n * (2::rat) powi k"
  let ?e = "exponent ?x"
  have x: "?x \<noteq> 0" using False by simp
  have "2 powi ?e \<le> \<bar>?x\<bar>" using x by (rule exponent_le)
  also have "\<bar>?x\<bar> = of_int \<bar>n\<bar> * 2 powi k" by (simp add: abs_mult)
  also have "\<dots> < of_int (2 ^ 53) * 2 powi k"
    using assms by (intro mult_strict_right_mono) (simp_all only: of_int_less_iff zero_less_power_int zero_less_numeral)
  also have "\<dots> = 2 powi (k + 53)"
    by (simp add: power_int_add)
  finally have "(2::rat) powi ?e < 2 powi (k + 53)" .
  have "?e < k + 53"
  proof (rule ccontr)
    assume "\<not> ?e < k + 53"
    then have "k + 53 \<le> ?e" by simp
    then have "(2::rat) powi (k + 53) \<le> 2 powi ?e"
      by (rule power_int_increasing) simp
    with \<open>(2::rat) powi ?e < 2 powi (k + 53)\<close> show False by simp
  qed
  define j where "j = nat (k - (?e - 52))"
  have j: "k = (?e - 52) + int j"
    using \<open>?e < k + 53\<close> by (simp add: j_def)
  have "?x / 2 powi (?e - 52) = of_int n * (2 powi k / 2 powi (?e - 52))"
    by simp
  also have "2 powi k / (2::rat) powi (?e - 52) = 2 powi (int j)"
  proof -
    have "2 powi k / (2::rat) powi (?e - 52) = 2 powi (k - (?e - 52))"
      by (rule power_int_diff [symmetric]) simp
    also have "k - (?e - 52) = int j"
      using j by simp
    finally show ?thesis .
  qed
  also have "of_int n * (2::rat) powi (int j) = of_int (n * 2 ^ j)"
    by simp
  finally have "round_even (?x / 2 powi (?e - 52)) = n * 2 ^ j"
    by (simp only: round_even_of_int)
  then have "fl53 ?x = of_int (n * 2 ^ j) * 2 powi (?e - 52)"
    using x by (simp only: fl53_def if_False)
  also have "\<dots> = of_int n * (2 powi (int j) * 2 powi (?e - 52))"
    by simp
  also have "2 powi (int j) * (2::rat) powi (?e - 52) = 2 powi k"
  proof -
    have "2 powi (int j) * (2::rat) powi (?e - 52) = 2 powi (int j + (?e - 52))"
      by (rule power_int_add [symmetric]) simp
    also have "int j + (?e - 52) = k"
      using j by simp
    finally show ?thesis .
  qed
  finally show ?thesis .
qed

lemma scale_le_one: "scale_of a b w h \<le> 1"
  by (simp add: scale_of_def)

lemma fl53_error_numeral: "\<bar>fl53 x - x\<bar> \<le> \<bar>x\<bar> / 9007199254740992"
  using fl53_error [of x] by simp

text \<open>
  The scaled width, computed in floating point from a scale that is at most the rounded
  quotient of the available width by the image width, exceeds the exact available width
  by rounding errors only.
\<close>

lemma scaled_fits:
  assumes "0 \<le> m" and "0 < pw" and "0 < w"
    and "sc \<le> fl53 (fl53 (pw - fl53 (m * 2)) / of_nat w)"
  shows "fl53 (of_nat w * sc) \<le> pw - 2 * m + (pw + 2 * m) / 2 ^ 50"
proof -
  define t where "t = fl53 (m * 2)"
  define a where "a = fl53 (pw - t)"
  define s1 where "s1 = fl53 (a / of_nat w)"
  define W where "W = of_nat w * s1"
  define P where "P = of_nat w * sc"
  have wpos: "(0::rat) < of_nat w"
    using assms(3) by simp
  have e1: "\<bar>t - m * 2\<bar> \<le> \<bar>m * 2\<bar> / 9007199254740992"
    unfolding t_def by (rule fl53_error_numeral)
  have e2: "\<bar>a - (pw - t)\<bar> \<le> \<bar>pw - t\<bar> / 9007199254740992"
    unfolding a_def by (rule fl53_error_numeral)
  have "\<bar>s1 - a / of_nat w\<bar> \<le> \<bar>a / of_nat w\<bar> / 9007199254740992"
    unfolding s1_def by (rule fl53_error_numeral)
  then have "\<bar>s1 - a / of_nat w\<bar> * of_nat w \<le> \<bar>a / of_nat w\<bar> / 9007199254740992 * of_nat w"
    using wpos by (intro mult_right_mono) simp_all
  moreover have "W - a = (s1 - a / of_nat w) * of_nat w"
    using wpos by (simp add: W_def field_simps)
  then have "\<bar>W - a\<bar> = \<bar>s1 - a / of_nat w\<bar> * of_nat w"
    using wpos by (simp only: abs_mult abs_of_nat)
  moreover have "\<bar>a / of_nat w\<bar> / 9007199254740992 * of_nat w = \<bar>a\<bar> / 9007199254740992"
    using wpos by (simp add: abs_divide)
  ultimately have e3: "\<bar>W - a\<bar> \<le> \<bar>a\<bar> / 9007199254740992"
    by simp
  have e4: "P \<le> W"
    unfolding P_def W_def s1_def a_def t_def
    using assms(4) wpos by (intro mult_left_mono) simp_all
  have e5: "\<bar>fl53 P - P\<bar> \<le> \<bar>P\<bar> / 9007199254740992"
    by (rule fl53_error_numeral)
  have m2: "\<bar>m * 2\<bar> = m * 2"
    using assms(1) by simp
  have t: "0 \<le> t" and t': "m * 2 - m * 2 / 9007199254740992 \<le> t"
    and t'': "t \<le> m * 2 + m * 2 / 9007199254740992"
    using e1 assms(1) unfolding m2 by linarith+
  define S where "S = pw + t"
  define A where "A = S + S / 9007199254740992"
  define B where "B = A + A / 9007199254740992"
  define G where "G = pw + 2 * m"
  have "\<bar>pw - t\<bar> \<le> S"
    unfolding S_def using t assms(2) by linarith
  then have "\<bar>pw - t\<bar> / 9007199254740992 \<le> S / 9007199254740992"
    by (rule divide_right_mono) simp
  with e2 have e2': "\<bar>a - (pw - t)\<bar> \<le> S / 9007199254740992"
    by (rule order_trans)
  have a1: "a \<le> pw - t + S / 9007199254740992"
    using e2' by linarith
  have a2: "\<bar>a\<bar> \<le> A"
    using e2' t assms(2) A_def S_def by linarith
  then have "\<bar>a\<bar> / 9007199254740992 \<le> A / 9007199254740992"
    by (rule divide_right_mono) simp
  with e3 have e3': "\<bar>W - a\<bar> \<le> A / 9007199254740992"
    by (rule order_trans)
  have w1: "W \<le> a + A / 9007199254740992"
    using e3' by linarith
  have w2: "\<bar>W\<bar> \<le> B"
    using e3' a2 B_def by linarith
  have f: "fl53 P \<le> W + B / 9007199254740992"
  proof (cases "0 \<le> P")
    case True
    then have "\<bar>P\<bar> = P" by simp
    with e5 have "\<bar>fl53 P - P\<bar> \<le> P / 9007199254740992" by simp
    with e4 w2 show ?thesis by linarith
  next
    case False
    then have "\<bar>P\<bar> = - P" by simp
    with e5 have "\<bar>fl53 P - P\<bar> \<le> - P / 9007199254740992" by simp
    with e4 w2 show ?thesis by linarith
  qed
  have "fl53 P \<le> pw - 2 * m + G / 1125899906842624"
    using f w1 a1 t t' t'' assms(1,2) A_def B_def S_def G_def by linarith
  then have "fl53 P \<le> pw - 2 * m + (pw + 2 * m) / 2 ^ 50"
    by (simp add: G_def)
  then show ?thesis
    by (simp add: P_def)
qed

lemma presets_auto: "presets ''auto'' = Missing"
  by (simp add: presets_def)

lemma a4_width: "fl53 (59528 / 100) = 2618069127129989 / 4398046511104"
  by code_simp

lemma a4_height: "fl53 (84189 / 100) = 7405342754466693 / 8796093022208"
  by code_simp

lemma presets_pos:
  assumes "presets name = Dims pw ph"
  shows "0 < pw \<and> 0 < ph"
proof (cases "name = ''a4''")
  case True
  have "presets name = Dims (fl53 (59528 / 100)) (fl53 (84189 / 100))"
    unfolding presets_def True by (simp only: simp_thms if_True)
  with assms have "Dims pw ph = Dims (fl53 (59528 / 100)) (fl53 (84189 / 100))"
    by (simp only:)
  then have "pw = fl53 (59528 / 100)" and "ph = fl53 (84189 / 100)"
    by (simp_all only: preset_lookup.inject)
  then show ?thesis
    by (simp only: a4_width a4_height) simp
next
  case False
  with assms show ?thesis
    by (auto simp: presets_def split: if_splits)
qed

text \<open>The preset branch, lines 204 to 215, in portrait orientation.\<close>

lemma layout_preset:
  assumes "presets (toLowerCase (field_or pageSize ''auto'')) = Dims pw ph"
    and "field_or orientation ''portrait'' \<noteq> ''landscape''"
  shows "layout pageSize orientation m mw mh =
     (let sc = scale_of (fl53 (pw - fl53 (m * 2))) (fl53 (ph - fl53 (m * 2)))
                 (dim_or mw 800) (dim_or mh 600);
          dw = js_round (fl53 (of_nat (dim_or mw 800) * sc));
          dh = js_round (fl53 (of_nat (dim_or mh 600) * sc))
      in Inr \<lparr>page_w = pw, page_h = ph,
              draw_x = of_int (js_round (fl53 (fl53 (pw - of_int dw) / 2))),
              draw_y = of_int (js_round (fl53 (fl53 (ph - of_int dh) / 2))),
              draw_w = of_int dw, draw_h = of_int dh\<rparr>)"
proof -
  have "toLowerCase (field_or pageSize ''auto'') \<noteq> ''auto''"
    using assms(1) presets_auto by auto
  then show ?thesis
    using assms by (simp add: layout_def Let_def)
qed

lemma letter_preset: "presets (toLowerCase (field_or (Some ''Letter'') ''auto'')) = Dims 612 792"
  by code_simp

lemma portrait_given: "field_or (Some ''portrait'') ''portrait'' \<noteq> ''landscape''"
  by (simp add: field_or_def)



text \<open>
  C4, as stated, fails: the drawn width is the scaled width rounded to the nearest
  integer, and rounding up can leave the available area. On a letter page in portrait
  with margin 1/4 the available width is 611.5; an image of 1223 by 100 is scaled by
  1/2 to 611.5 by 50 and drawn 612 wide. The operations that give the drawn width are
  exact in floating point.
\<close>

theorem preset_draw_width_exceeds_available:
  "layout (Some ''Letter'') (Some ''portrait'') (1 / 4) (Some 1223) (Some 100) =
     Inr \<lparr>page_w = 612, page_h = 792, draw_x = 0, draw_y = 371, draw_w = 612, draw_h = 50\<rparr>
   \<and> \<not> ((612 :: rat) \<le> 612 - 2 * (1 / 4))"
proof -
  have t: "fl53 (1 / 4 * 2) = 1 / 2"
    by code_simp
  have w: "fl53 (612 - 1 / 2) = 1223 / 2" and h: "fl53 (792 - 1 / 2) = 1583 / 2"
    by code_simp+
  have sc: "scale_of (1223 / 2) (1583 / 2) 1223 100 = 1 / 2"
    unfolding scale_of_def of_nat_numeral by code_simp
  have dw: "js_round (fl53 (of_nat 1223 * (1 / 2))) = 612"
    and dh: "js_round (fl53 (of_nat 100 * (1 / 2))) = 50"
    unfolding of_nat_numeral by code_simp+
  have x: "js_round (fl53 (fl53 (612 - 612) / 2)) = 0"
    and y: "js_round (fl53 (fl53 (792 - 50) / 2)) = 371"
    by code_simp+
  have d: "dim_or (Some 1223) 800 = 1223" "dim_or (Some 100) 600 = 100"
    by (simp_all add: dim_or_def)
  have "layout (Some ''Letter'') (Some ''portrait'') (1 / 4) (Some 1223) (Some 100) =
     Inr \<lparr>page_w = 612, page_h = 792, draw_x = 0, draw_y = 371, draw_w = 612, draw_h = 50\<rparr>"
    by (simp only: layout_preset [OF letter_preset portrait_given] d t w h sc Let_def dw dh x y
        of_int_numeral of_int_0)
  then show ?thesis
    by simp
qed

text \<open>
  C4, amended. For a named preset of \<open>pw\<close> by \<open>ph\<close> points in portrait orientation and a
  margin \<open>m \<ge> 0\<close>, the page is the preset and the scale is at most 1. The scaled
  dimensions, as the runtime computes them in floating point, exceed the available area
  \<open>(pw - 2m, ph - 2m)\<close> by no more than the rounding errors of the computation, which
  stay below \<open>(pw + 2m) / 2 ^ 50\<close> and \<open>(ph + 2m) / 2 ^ 50\<close>; the drawn dimensions are the
  scaled ones rounded to the nearest integer, so they exceed the available area by at
  most half a point and these rounding errors.
\<close>

theorem preset_layout_rounded_bounds:
  assumes "0 \<le> m"
    and "presets (toLowerCase (field_or pageSize ''auto'')) = Dims pw ph"
    and "field_or orientation ''portrait'' \<noteq> ''landscape''"
  shows "\<exists>p. layout pageSize orientation m mw mh = Inr p
           \<and> page_w p = pw \<and> page_h p = ph
           \<and> scale_of (fl53 (pw - fl53 (m * 2))) (fl53 (ph - fl53 (m * 2)))
                (dim_or mw 800) (dim_or mh 600) \<le> 1
           \<and> draw_w p = of_int (js_round (fl53 (of_nat (dim_or mw 800)
                * scale_of (fl53 (pw - fl53 (m * 2))) (fl53 (ph - fl53 (m * 2)))
                    (dim_or mw 800) (dim_or mh 600))))
           \<and> draw_h p = of_int (js_round (fl53 (of_nat (dim_or mh 600)
                * scale_of (fl53 (pw - fl53 (m * 2))) (fl53 (ph - fl53 (m * 2)))
                    (dim_or mw 800) (dim_or mh 600))))
           \<and> fl53 (of_nat (dim_or mw 800)
                * scale_of (fl53 (pw - fl53 (m * 2))) (fl53 (ph - fl53 (m * 2)))
                    (dim_or mw 800) (dim_or mh 600))
               \<le> pw - 2 * m + (pw + 2 * m) / 2 ^ 50
           \<and> fl53 (of_nat (dim_or mh 600)
                * scale_of (fl53 (pw - fl53 (m * 2))) (fl53 (ph - fl53 (m * 2)))
                    (dim_or mw 800) (dim_or mh 600))
               \<le> ph - 2 * m + (ph + 2 * m) / 2 ^ 50
           \<and> draw_w p \<le> pw - 2 * m + 1 / 2 + (pw + 2 * m) / 2 ^ 50
           \<and> draw_h p \<le> ph - 2 * m + 1 / 2 + (ph + 2 * m) / 2 ^ 50"
proof -
  let ?w = "dim_or mw 800" and ?h = "dim_or mh 600"
  let ?sc = "scale_of (fl53 (pw - fl53 (m * 2))) (fl53 (ph - fl53 (m * 2))) ?w ?h"
  let ?dw = "js_round (fl53 (of_nat ?w * ?sc))" and ?dh = "js_round (fl53 (of_nat ?h * ?sc))"
  from presets_pos [OF assms(2)] have pw: "0 < pw" and ph: "0 < ph"
    by simp_all
  have wpos: "0 < ?w" and hpos: "0 < ?h"
    by (simp_all add: dim_or_pos)
  have "?sc \<le> fl53 (fl53 (pw - fl53 (m * 2)) / of_nat ?w)"
    by (simp add: scale_of_def min_le_iff_disj)
  with assms(1) pw wpos have fw: "fl53 (of_nat ?w * ?sc) \<le> pw - 2 * m + (pw + 2 * m) / 2 ^ 50"
    by (rule scaled_fits)
  have "?sc \<le> fl53 (fl53 (ph - fl53 (m * 2)) / of_nat ?h)"
    by (simp add: scale_of_def min_le_iff_disj)
  with assms(1) ph hpos have fh: "fl53 (of_nat ?h * ?sc) \<le> ph - 2 * m + (ph + 2 * m) / 2 ^ 50"
    by (rule scaled_fits)
  have rw: "of_int ?dw \<le> pw - 2 * m + 1 / 2 + (pw + 2 * m) / 2 ^ 50"
    using js_round_le [of "fl53 (of_nat ?w * ?sc)"] fw by linarith
  have rh: "of_int ?dh \<le> ph - 2 * m + 1 / 2 + (ph + 2 * m) / 2 ^ 50"
    using js_round_le [of "fl53 (of_nat ?h * ?sc)"] fh by linarith
  have sc1: "?sc \<le> 1"
    by (rule scale_le_one)
  have run: "layout pageSize orientation m mw mh =
          Inr \<lparr>page_w = pw, page_h = ph,
               draw_x = of_int (js_round (fl53 (fl53 (pw - of_int ?dw) / 2))),
               draw_y = of_int (js_round (fl53 (fl53 (ph - of_int ?dh) / 2))),
               draw_w = of_int ?dw, draw_h = of_int ?dh\<rparr>"
    by (simp only: layout_preset [OF assms(2,3)] Let_def)
  show ?thesis
    unfolding run using sc1 fw fh rw rh
    by (intro exI [of _ "\<lparr>page_w = pw, page_h = ph,
               draw_x = of_int (js_round (fl53 (fl53 (pw - of_int ?dw) / 2))),
               draw_y = of_int (js_round (fl53 (fl53 (ph - of_int ?dh) / 2))),
               draw_w = of_int ?dw, draw_h = of_int ?dh\<rparr>"] conjI)
       (simp_all only: placement.select_convs)
qed

theorem preset_layout_rounded_bounds_witness:
  "(0::rat) \<le> 10
   \<and> presets (toLowerCase (field_or (Some ''Letter'') ''auto'')) = Dims 612 792
   \<and> field_or (Some ''portrait'') ''portrait'' \<noteq> ''landscape''
   \<and> (\<exists>p. layout (Some ''Letter'') (Some ''portrait'') 10 (Some 2000) (Some 1000) = Inr p
          \<and> page_w p = 612 \<and> page_h p = 792
          \<and> draw_w p \<le> 612 - 2 * 10 + 1 / 2 + (612 + 2 * 10) / 2 ^ 50
          \<and> draw_h p \<le> 792 - 2 * 10 + 1 / 2 + (792 + 2 * 10) / 2 ^ 50)"
proof -
  have c: "(0::rat) \<le> 10" by simp
  from preset_layout_rounded_bounds [OF c letter_preset portrait_given, of "Some 2000" "Some 1000"]
  obtain p where "layout (Some ''Letter'') (Some ''portrait'') 10 (Some 2000) (Some 1000) = Inr p"
    and "page_w p = 612" and "page_h p = 792"
    and "draw_w p \<le> 612 - 2 * 10 + 1 / 2 + (612 + 2 * 10) / 2 ^ 50"
    and "draw_h p \<le> 792 - 2 * 10 + 1 / 2 + (792 + 2 * 10) / 2 ^ 50"
    by blast
  with c letter_preset portrait_given show ?thesis by blast
qed

lemma a4_preset:
  "presets (toLowerCase (field_or (Some ''a4'') ''auto''))
   = Dims (2618069127129989 / 4398046511104) (7405342754466693 / 8796093022208)"
  by code_simp

text \<open>
  The rounding of the runtime shows in the result. On an A4 page with margin 10 an image of
  1440 by 1000 has the exact scaled height 399.5, which would be drawn 400 high; the
  quotient and the product are rounded to a scaled height just below 399.5, drawn 399.
\<close>

lemma a4_rounded_height:
  "layout (Some ''a4'') (Some ''portrait'') 10 (Some 1440) (Some 1000) =
     Inr \<lparr>page_w = 2618069127129989 / 4398046511104, page_h = 7405342754466693 / 8796093022208,
          draw_x = 10, draw_y = 221, draw_w = 575, draw_h = 399\<rparr>
   \<and> js_round (1000 * min (min ((59528 / 100 - 10 * 2) / 1440)
                                   ((84189 / 100 - 10 * 2) / 1000)) 1) = 400"
proof -
  have t: "fl53 (10 * 2) = 20"
    by code_simp
  have w: "fl53 (2618069127129989 / 4398046511104 - 20) = 2530108196907909 / 4398046511104"
    and h: "fl53 (7405342754466693 / 8796093022208 - 20) = 7229420894022533 / 8796093022208"
    by code_simp+
  have sc: "scale_of (2530108196907909 / 4398046511104) (7229420894022533 / 8796093022208)
      1440 1000 = 1799188051134513 / 4503599627370496"
    unfolding scale_of_def of_nat_numeral by code_simp
  have dw: "js_round (fl53 (of_nat 1440 * (1799188051134513 / 4503599627370496))) = 575"
    and dh: "js_round (fl53 (of_nat 1000 * (1799188051134513 / 4503599627370496))) = 399"
    unfolding of_nat_numeral by code_simp+
  have x: "js_round (fl53 (fl53 (2618069127129989 / 4398046511104 - 575) / 2)) = 10"
    and y: "js_round (fl53 (fl53 (7405342754466693 / 8796093022208 - 399) / 2)) = 221"
    by code_simp+
  have d: "dim_or (Some 1440) 800 = 1440" "dim_or (Some 1000) 600 = 1000"
    by (simp_all add: dim_or_def)
  have "layout (Some ''a4'') (Some ''portrait'') 10 (Some 1440) (Some 1000) =
     Inr \<lparr>page_w = 2618069127129989 / 4398046511104, page_h = 7405342754466693 / 8796093022208,
          draw_x = 10, draw_y = 221, draw_w = 575, draw_h = 399\<rparr>"
    by (simp only: layout_preset [OF a4_preset portrait_given] d t w h sc Let_def dw dh x y
        of_int_numeral of_int_0)
  then show ?thesis
    by (simp add: js_round_def)
qed

text \<open>
  The rounding errors are part of the bound. On a letter page the margin next above 1/4
  leaves the available width 611.5 after rounding, and an image 612 wide is drawn 612
  wide, more than half a point above the exact available width.
\<close>

lemma half_point_bound_passed:
  "layout (Some ''Letter'') (Some ''portrait'') (4503599627370497 / 18014398509481984)
       (Some 612) (Some 100) =
     Inr \<lparr>page_w = 612, page_h = 792,
          draw_x = 0, draw_y = 346, draw_w = 612, draw_h = 100\<rparr>
   \<and> \<not> ((612 :: rat) \<le> 612 - 2 * (4503599627370497 / 18014398509481984) + 1 / 2)"
proof -
  have t: "fl53 (4503599627370497 / 18014398509481984 * 2) = 4503599627370497 / 9007199254740992"
    by code_simp
  have w: "fl53 (612 - (4503599627370497 / 9007199254740992)) = 1223 / 2"
    and h: "fl53 (792 - (4503599627370497 / 9007199254740992)) = 1583 / 2"
    by code_simp+
  have sc: "scale_of (1223 / 2) (1583 / 2) 612 100 = 2249960107955113 / 2251799813685248"
    unfolding scale_of_def of_nat_numeral by code_simp
  have dw: "js_round (fl53 (of_nat 612 * (2249960107955113 / 2251799813685248))) = 612"
    and dh: "js_round (fl53 (of_nat 100 * (2249960107955113 / 2251799813685248))) = 100"
    unfolding of_nat_numeral by code_simp+
  have x: "js_round (fl53 (fl53 (612 - 612) / 2)) = 0"
    and y: "js_round (fl53 (fl53 (792 - 100) / 2)) = 346"
    by code_simp+
  have d: "dim_or (Some 612) 800 = 612" "dim_or (Some 100) 600 = 100"
    by (simp_all add: dim_or_def)
  have "layout (Some ''Letter'') (Some ''portrait'') (4503599627370497 / 18014398509481984)
       (Some 612) (Some 100) =
     Inr \<lparr>page_w = 612, page_h = 792,
          draw_x = 0, draw_y = 346, draw_w = 612, draw_h = 100\<rparr>"
    by (simp only: layout_preset [OF letter_preset portrait_given] d t w h sc Let_def dw dh x y
        of_int_numeral of_int_0)
  then show ?thesis
    by simp
qed

section \<open>Delivery of the document\<close>

lemma deliver_data:
  "deliver name d (map Data cs) = d\<lparr>dl_chunks := dl_chunks d @ cs\<rparr>"
  by (induction cs arbitrary: d) (simp_all add: on_data_def)

lemma deliver_append: "deliver name d (es @ fs) = deliver name (deliver name d es) fs"
  by (induction name d es rule: deliver.induct) simp_all

text \<open>
  C9, amended. The handler does not stream: it keeps every chunk the document writer
  emits, hands nothing to the response before the writer ends, and then sends the
  whole document in one piece. While the writer runs, the memory held is the document
  written so far.
\<close>

theorem document_sent_whole_at_end:
  "emitted (deliver name delivery_start (map Data cs)) = []
   \<and> buffered (deliver name delivery_start (map Data cs)) = concat cs
   \<and> dl_sent (deliver name delivery_start (map Data cs @ [End])) = [concat cs]"
  by (simp add: deliver_append deliver_data emitted_def buffered_def delivery_start_def on_end_def)

text \<open>
  C9, as stated, fails: after the writer has emitted two chunks no byte has left for
  the client and both chunks are held in memory; the first byte leaves with the whole
  document, at the end.
\<close>

theorem nothing_emitted_before_end:
  "emitted (deliver ''images.pdf'' delivery_start [Data ''%PDF-1.3'', Data ''page 1'']) = []
   \<and> buffered (deliver ''images.pdf'' delivery_start [Data ''%PDF-1.3'', Data ''page 1''])
       = ''%PDF-1.3page 1''
   \<and> dl_sent (deliver ''images.pdf'' delivery_start [Data ''%PDF-1.3'', Data ''page 1'', End])
       = [''%PDF-1.3page 1'']"
  by (simp add: emitted_def buffered_def delivery_start_def on_data_def on_end_def)

section \<open>Assembly without chunks\<close>

text \<open>
  C5. For a session without stored chunks (no directory, or a directory without a
  \<^verbatim>\<open>chunk_\<close> file), assembling answers status 400 with a no-chunks message and leaves
  the state as it was: no file is created and the registry is unchanged.
\<close>

theorem assemble_without_chunks:
  assumes "uploadId \<noteq> []" and "filename \<noteq> []" and "stored_chunks s uploadId = []"
  shows "assemble_upload rnd s \<lparr>ar_uploadId = Some uploadId, ar_filename = Some filename\<rparr> =
           (s, JsonError 400 (if chunk_dirs s uploadId = None then ''No chunks found for uploadId''
                              else ''No chunks found''))"
proof (cases "chunk_dirs s uploadId")
  case None
  with assms(1,2) show ?thesis
    by (simp add: assemble_upload_def field_or_def)
next
  case (Some listing)
  with assms(3) have "chunk_parts listing = []"
    by (simp add: stored_chunks_def)
  with Some assms(1,2) show ?thesis
    by (simp add: assemble_upload_def field_or_def)
qed

lemma notes_only_no_chunks:
  "stored_chunks (empty_server\<lparr>chunk_dirs := [''u1'' \<mapsto> [(''notes.txt'', ''x'')]]\<rparr>) ''u1'' = []"
  by (simp add: stored_chunks_def chunk_parts_def startsWith_def sort_by_def)

theorem assemble_without_chunks_witness:
  "''u1'' \<noteq> [] \<and> ''f.bin'' \<noteq> []
   \<and> stored_chunks (empty_server\<lparr>chunk_dirs := [''u1'' \<mapsto> [(''notes.txt'', ''x'')]]\<rparr>) ''u1'' = []
   \<and> assemble_upload ''00'' (empty_server\<lparr>chunk_dirs := [''u1'' \<mapsto> [(''notes.txt'', ''x'')]]\<rparr>)
        \<lparr>ar_uploadId = Some ''u1'', ar_filename = Some ''f.bin''\<rparr> =
       (empty_server\<lparr>chunk_dirs := [''u1'' \<mapsto> [(''notes.txt'', ''x'')]]\<rparr>, JsonError 400 ''No chunks found'')"
  using assemble_without_chunks [of "''u1''" "''f.bin''"
      "empty_server\<lparr>chunk_dirs := [''u1'' \<mapsto> [(''notes.txt'', ''x'')]]\<rparr>" "''00''"]
    notes_only_no_chunks
  by simp

section \<open>Document to images: source and probe\<close>

lemma resolve_source_state:
  assumes "resolve_source env s req = Inr (s1, p)"
  shows "work_dirs s1 = work_dirs s \<and> exec_log s1 = exec_log s \<and> tempStore s1 = tempStore s
         \<and> chunk_dirs s1 = chunk_dirs s"
  using assms
  by (auto simp: resolve_source_def Let_def split: if_splits list.splits option.splits prod.splits)

lemma message_names_pdftoppm:
  "\<exists>a b. unavailable_message = a @ ''pdftoppm'' @ b"
proof -
  have "unavailable_message =
      ''Server requires `'' @ ''pdftoppm'' @ ''` (Poppler). Please install poppler-utils (pdftoppm).''"
    by (simp add: unavailable_message_def)
  then show ?thesis by blast
qed

text \<open>
  C8, as stated, fails: the source is resolved before the rasterizer is probed, so a
  request without a document is answered with status 400 also when the rasterizer is
  absent.
\<close>

theorem absent_rasterizer_without_source:
  "pdf_to_images
     \<lparr>pdftoppm_installed = False, pdftoppm_version_ok = False, pdftoppm_render = (\<lambda>d. None),
      rand_hex = ''00'', mkdtemp_suffix = ''Ab12Cd'', stat_order = (\<lambda>q. q)\<rparr>
     empty_server \<lparr>pr_tempKeys = None, pr_file = None\<rparr>
   = (empty_server, JsonError 400 ''No PDF uploaded'')"
  by (simp add: pdf_to_images_def resolve_source_def field_or_def)

text \<open>
  C8, amended. For a request whose source resolves (an uploaded document, or a first
  key that is registered), made while the rasterizer is not installed, the answer is
  status 500 with a message that names \<^verbatim>\<open>pdftoppm\<close>; the only process started is the
  probe, and no working directory is created.
\<close>

theorem absent_rasterizer_unavailable:
  assumes "\<not> pdftoppm_installed env" and "resolve_source env s req = Inr (s1, p)"
  shows "snd (pdf_to_images env s req) = JsonError 500 unavailable_message
         \<and> (\<exists>a b. unavailable_message = a @ ''pdftoppm'' @ b)
         \<and> work_dirs (fst (pdf_to_images env s req)) = work_dirs s
         \<and> exec_log (fst (pdf_to_images env s req)) = exec_log s @ [probe_args]"
  using assms resolve_source_state [OF assms(2)] message_names_pdftoppm
  by (simp add: pdf_to_images_def checkPdftoppmAvailable_def)

theorem absent_rasterizer_unavailable_witness:
  "\<not> pdftoppm_installed
       \<lparr>pdftoppm_installed = False, pdftoppm_version_ok = False, pdftoppm_render = (\<lambda>d. None),
        rand_hex = ''00'', mkdtemp_suffix = ''Ab12Cd'', stat_order = (\<lambda>q. q)\<rparr>
   \<and> resolve_source
       \<lparr>pdftoppm_installed = False, pdftoppm_version_ok = False, pdftoppm_render = (\<lambda>d. None),
        rand_hex = ''00'', mkdtemp_suffix = ''Ab12Cd'', stat_order = (\<lambda>q. q)\<rparr>
       empty_server \<lparr>pr_tempKeys = None, pr_file = Some (''a.pdf'', ''%PDF'')\<rparr>
       = Inr (empty_server\<lparr>files := [''pdf_to_images/00_a.pdf'' \<mapsto> ''%PDF'']\<rparr>, ''pdf_to_images/00_a.pdf'')
   \<and> snd (pdf_to_images
       \<lparr>pdftoppm_installed = False, pdftoppm_version_ok = False, pdftoppm_render = (\<lambda>d. None),
        rand_hex = ''00'', mkdtemp_suffix = ''Ab12Cd'', stat_order = (\<lambda>q. q)\<rparr>
       empty_server \<lparr>pr_tempKeys = None, pr_file = Some (''a.pdf'', ''%PDF'')\<rparr>)
       = JsonError 500 unavailable_message
   \<and> work_dirs (fst (pdf_to_images
       \<lparr>pdftoppm_installed = False, pdftoppm_version_ok = False, pdftoppm_render = (\<lambda>d. None),
        rand_hex = ''00'', mkdtemp_suffix = ''Ab12Cd'', stat_order = (\<lambda>q. q)\<rparr>
       empty_server \<lparr>pr_tempKeys = None, pr_file = Some (''a.pdf'', ''%PDF'')\<rparr>)) = Map.empty
   \<and> exec_log (fst (pdf_to_images
       \<lparr>pdftoppm_installed = False, pdftoppm_version_ok = False, pdftoppm_render = (\<lambda>d. None),
        rand_hex = ''00'', mkdtemp_suffix = ''Ab12Cd'', stat_order = (\<lambda>q. q)\<rparr>
       empty_server \<lparr>pr_tempKeys = None, pr_file = Some (''a.pdf'', ''%PDF'')\<rparr>)) = [[''pdftoppm'', ''-v'']]"
proof -
  let ?env = "\<lparr>pdftoppm_installed = False, pdftoppm_version_ok = False,
     pdftoppm_render = (\<lambda>d. None), rand_hex = ''00'', mkdtemp_suffix = ''Ab12Cd'',
     stat_order = (\<lambda>q. q)\<rparr>"
  let ?req = "\<lparr>pr_tempKeys = None, pr_file = Some (''a.pdf'', ''%PDF'')\<rparr>"
  have a: "\<not> pdftoppm_installed ?env" by simp
  have b: "resolve_source ?env empty_server ?req
      = Inr (empty_server\<lparr>files := [''pdf_to_images/00_a.pdf'' \<mapsto> ''%PDF'']\<rparr>, ''pdf_to_images/00_a.pdf'')"
    by (simp add: resolve_source_def field_or_def empty_server_def Let_def)
  from absent_rasterizer_unavailable [OF a b] a b show ?thesis
    by (simp add: empty_server_def probe_args_def)
qed

section \<open>Document to images: registry keys\<close>






text \<open>
  The registry never holds an empty path: it is empty at the start, and the only
  handler that writes to it stores the path of the file it has just assembled.
\<close>

lemma registry_ok_start: "registry_ok empty_server"
  by (simp add: registry_ok_def empty_server_def)

lemma registry_ok_upload: "registry_ok s \<Longrightarrow> registry_ok (fst (upload_chunk rnd now s req))"
  by (simp add: registry_ok_def upload_chunk_def Let_def split: option.splits)

lemma registry_ok_assemble:
  assumes "registry_ok s"
  shows "registry_ok (fst (assemble_upload rnd s req))"
proof -
  have "[] \<notin> ran ((tempStore s)(k \<mapsto> ''assembled_uploads/'' @ rnd @ ''_'' @ n))" for k n
    using assms by (auto simp: registry_ok_def ran_def)
  then show ?thesis
    using assms
    by (simp add: assemble_upload_def Let_def registry_ok_def split: option.splits)
qed

lemma registry_ok_convert: "registry_ok s \<Longrightarrow> registry_ok (fst (pdf_to_images env s req))"
  by (auto simp: registry_ok_def pdf_to_images_def resolve_source_def Let_def
      split: option.splits sum.splits list.splits if_splits prod.splits)





section \<open>The comparison is a linear order on names\<close>

lemma compare_weights_sign:
  "compare_weights xs ys = (if xs < ys then - 1 else if xs = ys then 0 else 1)"
  by (induction xs ys rule: compare_weights.induct) auto

lemma localeCompare_le: "localeCompare a b \<le> 0 \<longleftrightarrow> ckey a \<le> ckey b"
  by (auto simp: localeCompare_def ckey_def compare_weights_sign Let_def)

lemma insert_by_localeCompare: "insert_by localeCompare x ys = insort_key ckey x ys"
  by (induction ys) (simp_all add: localeCompare_le)

lemma sort_by_localeCompare: "sort_by localeCompare xs = sort_key ckey xs"
  by (induction xs) (simp_all add: sort_by_def insert_by_localeCompare)

lemma index_of_less: "x \<in> set xs \<Longrightarrow> index_of x xs < length xs"
  by (induction xs) auto

lemma index_of_inj: "x \<in> set xs \<Longrightarrow> y \<in> set xs \<Longrightarrow> index_of x xs = index_of y xs \<Longrightarrow> x = y"
  by (induction xs) (auto split: if_splits)

lemma primary_lower: "primary c = primary d \<Longrightarrow> to_lower c = to_lower d"
  using index_of_less [of "to_lower c" collation_order] index_of_less [of "to_lower d" collation_order]
    index_of_inj [of "to_lower c" collation_order "to_lower d"]
  by (auto simp: primary_def Let_def split: if_splits)

lemma to_lower_case_inj:
  assumes "to_lower c = to_lower d" and "is_upper c = is_upper d"
  shows "c = d"
proof (cases "is_upper c")
  case True
  with assms have "char_of (of_char c + (32::nat)) = (char_of (of_char d + (32::nat)) :: char)"
    by (simp add: to_lower_def)
  then have "(of_char c + (32::nat)) mod 256 = (of_char d + (32::nat)) mod 256"
    by (simp add: char_of_eq_iff take_bit_eq_mod)
  moreover have "(of_char c :: nat) \<le> 90" "(of_char d :: nat) \<le> 90"
    using True assms(2) by (simp_all add: is_upper_def)
  ultimately have "(of_char c :: nat) = of_char d" by simp
  then show ?thesis by simp
next
  case False
  with assms show ?thesis by (simp add: to_lower_def)
qed

lemma weights_inj: "primary c = primary d \<Longrightarrow> tertiary c = tertiary d \<Longrightarrow> c = d"
proof (rule to_lower_case_inj)
  assume "primary c = primary d"
  then show "to_lower c = to_lower d" by (rule primary_lower)
next
  assume "tertiary c = tertiary d"
  then show "is_upper c = is_upper d" by (simp add: tertiary_def split: if_splits)
qed

lemma ckey_inj: "ckey a = ckey b \<Longrightarrow> a = b"
proof (induction a arbitrary: b)
  case Nil
  then show ?case by (simp add: ckey_def)
next
  case (Cons c a)
  then obtain d b' where b: "b = d # b'"
    by (cases b) (auto simp: ckey_def)
  with Cons.prems have "primary c = primary d" "tertiary c = tertiary d" "ckey a = ckey b'"
    by (simp_all add: ckey_def)
  with Cons.IH b show ?case by (simp add: weights_inj)
qed


lemma sort_key_permuted:
  assumes "mset xs = mset ys" and "inj_on f (set xs)"
  shows "sort_key f xs = sort_key f ys"
  by (rule sort_key_inj_key_eq) (use assms in simp_all)

lemma insort_key_map: "insort_key f (g x) (map g xs) = map g (insort_key (\<lambda>y. f (g y)) x xs)"
  by (induction xs) simp_all

lemma sort_key_map: "sort_key f (map g xs) = map g (sort_key (\<lambda>y. f (g y)) xs)"
  by (induction xs) (simp_all add: insort_key_map)

section \<open>A session after its uploads\<close>

lemma write_entry_new:
  "name \<notin> fst ` set listing \<Longrightarrow> write_entry name data listing = listing @ [(name, data)]"
  by (simp add: write_entry_def)

lemma upload_chunk_stores:
  assumes "uid \<noteq> []" and "fst c \<noteq> []"
  shows "fst (upload_chunk rnd now s (chunk_req uid c)) =
     s\<lparr>chunk_dirs := (chunk_dirs s)(uid \<mapsto>
          write_entry (''chunk_'' @ fst c) (snd c)
            (case chunk_dirs s uid of None \<Rightarrow> [] | Some l \<Rightarrow> l))\<rparr>"
  using assms by (simp add: upload_chunk_def chunk_req_def field_or_def Let_def)

lemma dir_update_twice:
  "(s\<lparr>chunk_dirs := (chunk_dirs s)(uid \<mapsto> a)\<rparr>)
     \<lparr>chunk_dirs := (chunk_dirs (s\<lparr>chunk_dirs := (chunk_dirs s)(uid \<mapsto> a)\<rparr>))(uid \<mapsto> b)\<rparr>
   = s\<lparr>chunk_dirs := (chunk_dirs s)(uid \<mapsto> b)\<rparr>"
  by simp

lemma dir_lookup_updated:
  "(case chunk_dirs (s\<lparr>chunk_dirs := (chunk_dirs s)(uid \<mapsto> a)\<rparr>) uid of
      None \<Rightarrow> [] | Some l \<Rightarrow> l) = a"
  by simp

lemma upload_chunks_listing:
  assumes "uid \<noteq> []" and "cs \<noteq> []"
    and "\<forall>c \<in> set cs. fst c \<noteq> []"
    and "distinct (map fst cs)"
    and "(case chunk_dirs s uid of None \<Rightarrow> [] | Some l \<Rightarrow> l) = old"
    and "\<forall>c \<in> set cs. ''chunk_'' @ fst c \<notin> fst ` set old"
  shows "upload_chunks rnd now s uid cs =
     s\<lparr>chunk_dirs := (chunk_dirs s)(uid \<mapsto>
          old @ map (\<lambda>c. (''chunk_'' @ fst c, snd c)) cs)\<rparr>"
  using assms
proof (induction cs arbitrary: s now old)
  case Nil
  then show ?case by simp
next
  case (Cons c cs)
  let ?e = "(''chunk_'' @ fst c, snd c)"
  let ?s1 = "s\<lparr>chunk_dirs := (chunk_dirs s)(uid \<mapsto> old @ [?e])\<rparr>"
  have c: "fst c \<noteq> []" and new: "''chunk_'' @ fst c \<notin> fst ` set old"
    using Cons.prems(3,6) by simp_all
  have s1: "fst (upload_chunk rnd now s (chunk_req uid c)) = ?s1"
    using upload_chunk_stores [OF Cons.prems(1) c, of rnd now s]
      write_entry_new [OF new, of "snd c"] Cons.prems(5)
    by (simp only:)
  have step: "upload_chunks rnd now s uid (c # cs) = upload_chunks rnd (Suc now) ?s1 uid cs"
    by (simp only: upload_chunks.simps s1)
  show ?case
  proof (cases "cs = []")
    case True
    show ?thesis
      by (simp only: True upload_chunks.simps s1 list.map)
  next
    case False
    have "upload_chunks rnd (Suc now) ?s1 uid cs =
        ?s1\<lparr>chunk_dirs := (chunk_dirs ?s1)(uid \<mapsto>
          (old @ [?e]) @ map (\<lambda>c. (''chunk_'' @ fst c, snd c)) cs)\<rparr>"
    proof (rule Cons.IH [OF Cons.prems(1) False])
      show "\<forall>c \<in> set cs. fst c \<noteq> []" using Cons.prems(3) by simp
      show "distinct (map fst cs)" using Cons.prems(4) by simp
      show "(case chunk_dirs ?s1 uid of None \<Rightarrow> [] | Some l \<Rightarrow> l) = old @ [?e]"
        by (rule dir_lookup_updated)
      show "\<forall>c' \<in> set cs. ''chunk_'' @ fst c' \<notin> fst ` set (old @ [?e])"
        using Cons.prems(4,6) by (auto simp: image_iff)
    qed
    also have "\<dots> = s\<lparr>chunk_dirs := (chunk_dirs s)(uid \<mapsto>
          (old @ [?e]) @ map (\<lambda>c. (''chunk_'' @ fst c, snd c)) cs)\<rparr>"
      by (rule dir_update_twice)
    finally show ?thesis
      by (simp only: step list.map append_Cons append_Nil append_assoc)
  qed
qed

section \<open>Assembling a listing\<close>

lemma append_parts_reads:
  assumes "distinct (map fst listing)" and "set es \<subseteq> set listing"
  shows "append_parts listing (map fst es) out = Some (out @ concat (map snd es))"
  using assms(2)
proof (induction es arbitrary: out)
  case Nil
  then show ?case by simp
next
  case (Cons e es)
  then have "(fst e, snd e) \<in> set listing" by simp
  with assms(1) have "map_of listing (fst e) = Some (snd e)"
    by (rule map_of_is_SomeI)
  with Cons show ?case
    by (simp add: appendPartToFile_def)
qed

lemma chunk_parts_sorted:
  assumes "\<forall>e \<in> set listing. startsWith (fst e) ''chunk_''"
  shows "chunk_parts listing = map fst (sort_key (\<lambda>e. ckey (fst e)) listing)"
proof -
  have "filter (\<lambda>f. startsWith f ''chunk_'') (map fst listing) = map fst listing"
    using assms by (simp add: filter_id_conv)
  then show ?thesis
    by (simp add: chunk_parts_def sort_by_localeCompare sort_key_map)
qed

lemma assemble_listing:
  assumes "uid \<noteq> []" and "filename \<noteq> []"
    and "chunk_dirs s uid = Some listing" and "listing \<noteq> []"
    and "distinct (map fst listing)"
    and "\<forall>e \<in> set listing. startsWith (fst e) ''chunk_''"
  shows "assemble_upload rnd s \<lparr>ar_uploadId = Some uid, ar_filename = Some filename\<rparr> =
     (s\<lparr>chunk_dirs := (chunk_dirs s)(uid := None),
        files := (files s)(''assembled_uploads/'' @ rnd @ ''_'' @ basename filename \<mapsto>
                   concat (map snd (sort_key (\<lambda>e. ckey (fst e)) listing))),
        tempStore := (tempStore s)(makeTempKey uid filename \<mapsto>
                   ''assembled_uploads/'' @ rnd @ ''_'' @ basename filename)\<rparr>,
      Assembled (makeTempKey uid filename))"
proof -
  let ?sorted = "sort_key (\<lambda>e. ckey (fst e)) listing"
  have parts: "chunk_parts listing = map fst ?sorted"
    using assms(6) by (rule chunk_parts_sorted)
  have ne: "chunk_parts listing \<noteq> []"
    using assms(4) parts by (metis length_map length_sort list.size(3) length_0_conv)
  have "append_parts listing (map fst ?sorted) [] = Some ([] @ concat (map snd ?sorted))"
    using assms(5) by (rule append_parts_reads) simp
  then have data: "append_parts listing (chunk_parts listing) [] = Some (concat (map snd ?sorted))"
    by (simp add: parts)
  have "set (chunk_parts listing) = fst ` set listing"
    by (simp add: parts)
  then have rest: "filter (\<lambda>e. fst e \<notin> set (chunk_parts listing)) listing = []"
    by (simp add: filter_empty_conv)
  show ?thesis
    using assms(1,2,3) ne data rest
    by (simp add: assemble_upload_def field_or_def Let_def)
qed

lemma startsWith_prefix: "startsWith (p @ s) p"
  by (simp add: startsWith_def)

lemma fresh_session_restored:
  assumes "chunk_dirs s uid = None"
  shows "(s\<lparr>chunk_dirs := (chunk_dirs s)(uid \<mapsto> l)\<rparr>)
     \<lparr>chunk_dirs := (chunk_dirs (s\<lparr>chunk_dirs := (chunk_dirs s)(uid \<mapsto> l)\<rparr>))(uid := None),
      files := (files (s\<lparr>chunk_dirs := (chunk_dirs s)(uid \<mapsto> l)\<rparr>))(p \<mapsto> d),
      tempStore := (tempStore (s\<lparr>chunk_dirs := (chunk_dirs s)(uid \<mapsto> l)\<rparr>))(k \<mapsto> p)\<rparr>
   = s\<lparr>files := (files s)(p \<mapsto> d), tempStore := (tempStore s)(k \<mapsto> p)\<rparr>"
proof -
  have "(chunk_dirs s)(uid := None) = chunk_dirs s"
    using assms by (simp add: fun_upd_idem)
  then show ?thesis by simp
qed

lemma assemble_after_uploads:
  assumes "uid \<noteq> []" and "filename \<noteq> []" and "chunk_dirs s uid = None"
    and "cs \<noteq> []" and "distinct (map fst cs)" and "\<forall>c \<in> set cs. fst c \<noteq> []"
  shows "assemble_upload rnd' (upload_chunks rnd now s uid cs)
           \<lparr>ar_uploadId = Some uid, ar_filename = Some filename\<rparr> =
     (s\<lparr>files := (files s)(''assembled_uploads/'' @ rnd' @ ''_'' @ basename filename \<mapsto>
                   concat (map snd (sort_key (\<lambda>c. ckey (''chunk_'' @ fst c)) cs))),
        tempStore := (tempStore s)(makeTempKey uid filename \<mapsto>
                   ''assembled_uploads/'' @ rnd' @ ''_'' @ basename filename)\<rparr>,
      Assembled (makeTempKey uid filename))"
proof -
  let ?entry = "\<lambda>c :: string \<times> bytes. (''chunk_'' @ fst c, snd c)"
  let ?listing = "map ?entry cs"
  let ?s1 = "s\<lparr>chunk_dirs := (chunk_dirs s)(uid \<mapsto> ?listing)\<rparr>"
  have "upload_chunks rnd now s uid cs =
      s\<lparr>chunk_dirs := (chunk_dirs s)(uid \<mapsto> [] @ ?listing)\<rparr>"
    using assms(1,4,6,5)
  proof (rule upload_chunks_listing)
    show "(case chunk_dirs s uid of None \<Rightarrow> [] | Some l \<Rightarrow> l) = []"
      using assms(3) by simp
    show "\<forall>c \<in> set cs. ''chunk_'' @ fst c \<notin> fst ` set []" by simp
  qed
  then have up: "upload_chunks rnd now s uid cs = ?s1"
    by (simp only: append_Nil)
  have names: "map fst ?listing = map (\<lambda>c. ''chunk_'' @ fst c) cs"
    by simp
  have "distinct (map (\<lambda>c. ''chunk_'' @ fst c) cs)"
    using assms(5) by (simp add: distinct_map inj_on_def)
  then have dist: "distinct (map fst ?listing)"
    by (simp only: names)
  have pre: "\<forall>e \<in> set ?listing. startsWith (fst e) ''chunk_''"
    by (auto simp: startsWith_def)
  have sorted: "map snd (sort_key (\<lambda>e. ckey (fst e)) ?listing)
      = map snd (sort_key (\<lambda>c. ckey (''chunk_'' @ fst c)) cs)"
    by (simp add: sort_key_map comp_def)
  have "assemble_upload rnd' ?s1 \<lparr>ar_uploadId = Some uid, ar_filename = Some filename\<rparr> =
     (?s1\<lparr>chunk_dirs := (chunk_dirs ?s1)(uid := None),
        files := (files ?s1)(''assembled_uploads/'' @ rnd' @ ''_'' @ basename filename \<mapsto>
                   concat (map snd (sort_key (\<lambda>e. ckey (fst e)) ?listing))),
        tempStore := (tempStore ?s1)(makeTempKey uid filename \<mapsto>
                   ''assembled_uploads/'' @ rnd' @ ''_'' @ basename filename)\<rparr>,
      Assembled (makeTempKey uid filename))"
    using assms(1,2) _ _ dist pre
  proof (rule assemble_listing)
    show "chunk_dirs ?s1 uid = Some ?listing" by simp
    show "?listing \<noteq> []" using assms(4) by simp
  qed
  then show ?thesis
    by (simp only: up sorted fresh_session_restored [OF assms(3)])
qed

section \<open>Digit strings\<close>

lemma digit_chars:
  "char_of (48::nat) = CHR ''0''" "char_of (49::nat) = CHR ''1''" "char_of (50::nat) = CHR ''2''"
  "char_of (51::nat) = CHR ''3''" "char_of (52::nat) = CHR ''4''" "char_of (53::nat) = CHR ''5''"
  "char_of (54::nat) = CHR ''6''" "char_of (55::nat) = CHR ''7''" "char_of (56::nat) = CHR ''8''"
  "char_of (57::nat) = CHR ''9''"
  by code_simp+

lemma is_digit_cases:
  assumes "is_digit c"
  shows "c \<in> set ''0123456789''"
proof -
  define n where "n = (of_char c :: nat)"
  have c: "c = char_of n" by (simp add: n_def)
  have "48 \<le> n" "n \<le> 57" using assms by (simp_all add: is_digit_def n_def)
  then have "n = 48 \<or> n = 49 \<or> n = 50 \<or> n = 51 \<or> n = 52 \<or> n = 53 \<or> n = 54 \<or> n = 55
      \<or> n = 56 \<or> n = 57"
    by arith
  then show ?thesis
    unfolding c by (elim disjE) (simp_all add: digit_chars)
qed

lemma digit_table:
  "map primary ''0123456789'' = [38, 39, 40, 41, 42, 43, 44, 45, 46, 47]"
  "map tertiary ''0123456789'' = [0, 0, 0, 0, 0, 0, 0, 0, 0, 0]"
  "map digit_val ''0123456789'' = [0, 1, 2, 3, 4, 5, 6, 7, 8, 9]"
  by code_simp+

lemma digit_weights:
  assumes "is_digit c"
  shows "primary c = 38 + digit_val c" and "tertiary c = 0"
  using is_digit_cases [OF assms] digit_table
  by auto

lemma foldl_digits:
  "foldl (\<lambda>a c. 10 * a + digit_val c) a s = a * 10 ^ length s + dec_val s"
proof (induction s arbitrary: a)
  case Nil
  show ?case by (simp add: dec_val_def)
next
  case (Cons c s)
  have "dec_val (c # s) = foldl (\<lambda>a c. 10 * a + digit_val c) (digit_val c) s"
    by (simp add: dec_val_def)
  also have "\<dots> = digit_val c * 10 ^ length s + dec_val s"
    by (rule Cons.IH)
  finally have d: "dec_val (c # s) = digit_val c * 10 ^ length s + dec_val s" .
  have "foldl (\<lambda>a c. 10 * a + digit_val c) a (c # s)
      = foldl (\<lambda>a c. 10 * a + digit_val c) (10 * a + digit_val c) s"
    by simp
  also have "\<dots> = (10 * a + digit_val c) * 10 ^ length s + dec_val s"
    by (rule Cons.IH)
  finally show ?case
    by (simp add: d algebra_simps)
qed

lemma dec_val_Cons: "dec_val (c # s) = digit_val c * 10 ^ length s + dec_val s"
  using foldl_digits [of "digit_val c" s] by (simp add: dec_val_def)


lemma digit_val_le: "is_digit c \<Longrightarrow> digit_val c \<le> 9"
  unfolding is_digit_def digit_val_def by arith

lemma dec_val_bound: "list_all is_digit s \<Longrightarrow> dec_val s < 10 ^ length s"
proof (induction s)
  case Nil
  show ?case by (simp add: dec_val_def)
next
  case (Cons c s)
  then have "digit_val c \<le> 9" and b: "dec_val s < 10 ^ length s"
    by (simp_all add: digit_val_le)
  then have "digit_val c * 10 ^ length s \<le> 9 * 10 ^ length s"
    by (simp only: mult_le_mono1)
  with b have "digit_val c * 10 ^ length s + dec_val s < 10 * 10 ^ length s"
    by linarith
  then show ?case
    by (simp add: dec_val_Cons)
qed

lemma positional_compare:
  fixes x y a b N :: nat
  assumes "a < N" and "b < N"
  shows "x * N + a \<le> y * N + b \<longleftrightarrow> x < y \<or> x = y \<and> a \<le> b"
proof (cases x y rule: linorder_cases)
  case less
  then have "Suc x * N \<le> y * N"
    by (simp only: mult_le_mono1 Suc_leI)
  with assms less show ?thesis by simp
next
  case equal
  then show ?thesis by simp
next
  case greater
  then have "Suc y * N \<le> x * N"
    by (simp only: mult_le_mono1 Suc_leI)
  with assms greater show ?thesis by simp
qed

lemma digit_strings_order:
  assumes "length a = length b" and "list_all is_digit a" and "list_all is_digit b"
  shows "map primary a \<le> map primary b \<longleftrightarrow> dec_val a \<le> dec_val b"
  using assms
proof (induction a b rule: list_induct2)
  case Nil
  show ?case by simp
next
  case (Cons c a d b)
  then have ih: "map primary a \<le> map primary b \<longleftrightarrow> dec_val a \<le> dec_val b"
    and c: "is_digit c" and d: "is_digit d"
    and da: "list_all is_digit a" and db: "list_all is_digit b"
    by simp_all
  have a: "dec_val a < 10 ^ length a"
    using da by (rule dec_val_bound)
  have b: "dec_val b < 10 ^ length a"
    using dec_val_bound [OF db] Cons.hyps by simp
  have "map primary (c # a) \<le> map primary (d # b)
      \<longleftrightarrow> digit_val c < digit_val d \<or> digit_val c = digit_val d \<and> dec_val a \<le> dec_val b"
    by (simp add: digit_weights [OF c] digit_weights [OF d] ih)
  also have "\<dots> \<longleftrightarrow> digit_val c * 10 ^ length a + dec_val a \<le> digit_val d * 10 ^ length a + dec_val b"
    by (rule positional_compare [OF a b, symmetric])
  finally show ?case
    using Cons.hyps by (simp add: dec_val_Cons)
qed

lemma digits_tertiary: "list_all is_digit a \<Longrightarrow> map tertiary a = replicate (length a) 0"
  by (induction a) (simp_all add: digit_weights)

lemma lex_same_prefix: "p @ x \<le> p @ y \<longleftrightarrow> x \<le> y" for x y :: "nat list"
  by (induction p) simp_all

lemma lex_same_suffix: "length x = length y \<Longrightarrow> x @ q \<le> y @ q \<longleftrightarrow> x \<le> y" for x y :: "nat list"
  by (induction x y rule: list_induct2) simp_all

lemma framed_digits_order:
  assumes "length a = length b" and "list_all is_digit a" and "list_all is_digit b"
  shows "ckey (p @ a @ q) \<le> ckey (p @ b @ q) \<longleftrightarrow> dec_val a \<le> dec_val b"
proof -
  have t: "map tertiary (p @ a @ q) = map tertiary (p @ b @ q)"
    using assms by (simp add: digits_tertiary)
  have "map primary (p @ a @ q) \<le> map primary (p @ b @ q) \<longleftrightarrow> map primary a \<le> map primary b"
    using assms(1) by (simp add: lex_same_prefix lex_same_suffix)
  then have "map primary (p @ a @ q) \<le> map primary (p @ b @ q) \<longleftrightarrow> dec_val a \<le> dec_val b"
    by (simp only: digit_strings_order [OF assms])
  then show ?thesis
    unfolding ckey_def less_eq_prod_simp t by auto
qed

lemma insort_key_same_order:
  assumes "\<forall>y \<in> set ys. f x \<le> f y \<longleftrightarrow> g x \<le> g y"
  shows "insort_key f x ys = insort_key g x ys"
  using assms by (induction ys) simp_all

lemma sort_key_same_order:
  assumes "\<forall>x \<in> set xs. \<forall>y \<in> set xs. f x \<le> f y \<longleftrightarrow> g x \<le> g y"
  shows "sort_key f xs = sort_key g xs"
  using assms
proof (induction xs)
  case Nil
  show ?case by simp
next
  case (Cons x xs)
  then have "sort_key f xs = sort_key g xs" by simp
  moreover have "insort_key f x (sort_key g xs) = insort_key g x (sort_key g xs)"
    using Cons.prems by (intro insort_key_same_order) simp
  ultimately show ?case by simp
qed

section \<open>Order of assembly\<close>

lemma insert_by_names:
  "insert_by (\<lambda>a b. localeCompare (g a) (g b)) x ys = insort_key (\<lambda>y. ckey (g y)) x ys"
  by (induction ys) (simp_all add: localeCompare_le)

lemma sort_by_names:
  "sort_by (\<lambda>a b. localeCompare (g a) (g b)) xs = sort_key (\<lambda>y. ckey (g y)) xs"
  by (induction xs) (simp_all add: sort_by_def insert_by_names)

lemma valid_index_given: "valid_index i \<Longrightarrow> i \<noteq> []"
  by (simp add: valid_index_def)

lemma chunk_name_key_inj:
  assumes "distinct (map fst cs)"
  shows "inj_on (\<lambda>c. ckey (''chunk_'' @ fst c)) (set cs)"
proof (rule inj_onI)
  fix a b assume "a \<in> set cs" "b \<in> set cs"
    and "ckey (''chunk_'' @ fst a) = ckey (''chunk_'' @ fst b)"
  then have "fst a = fst b" using ckey_inj by fastforce
  with assms \<open>a \<in> set cs\<close> \<open>b \<in> set cs\<close> show "a = b"
    by (meson distinct_map inj_onD)
qed

text \<open>
  C1, as stated, fails: the parts are sorted by name with \<^verbatim>\<open>localeCompare\<close>, which is
  not numeric. Chunks uploaded under the indices 2, 10 and 1, in that order, with the
  contents B, J and A, are assembled as A, J, B: chunk 10 comes before chunk 2.
\<close>

theorem assemble_ten_before_two:
  "files (fst (assemble_upload ''00''
       (upload_chunks ''r'' 0 empty_server ''u1'' [(''2'', ''B''), (''10'', ''J''), (''1'', ''A'')])
       \<lparr>ar_uploadId = Some ''u1'', ar_filename = Some ''f.bin''\<rparr>))
     ''assembled_uploads/00_f.bin'' = Some ''AJB''
   \<and> ''AJB'' \<noteq> ''A'' @ ''B'' @ ''J''"
  unfolding empty_server_def by code_simp

text \<open>
  C1, amended. For a fresh session whose chunks have distinct indices, the assembled
  file is the concatenation of the chunks in ascending order of their stored names
  \<^verbatim>\<open>chunk_<index>\<close> under \<^verbatim>\<open>localeCompare\<close>; the request answers with the registry
  key. This is ascending numeric order of the indices when all of them are strings of
  decimal digits of one length \<open>w\<close> (zero-padded indices).
\<close>

theorem assemble_in_name_order:
  assumes "uid \<noteq> []" and "filename \<noteq> []" and "chunk_dirs s uid = None"
    and "cs \<noteq> []" and "distinct (map fst cs)" and "\<forall>c \<in> set cs. valid_index (fst c)"
  shows "\<exists>s'. assemble_upload rnd' (upload_chunks rnd now s uid cs)
                \<lparr>ar_uploadId = Some uid, ar_filename = Some filename\<rparr>
              = (s', Assembled (makeTempKey uid filename))
          \<and> files s' (''assembled_uploads/'' @ rnd' @ ''_'' @ basename filename)
              = Some (concat (map snd
                  (sort_by (\<lambda>a b. localeCompare (''chunk_'' @ fst a) (''chunk_'' @ fst b)) cs)))
          \<and> ((\<forall>c \<in> set cs. list_all is_digit (fst c) \<and> length (fst c) = w) \<longrightarrow>
                sort_by (\<lambda>a b. localeCompare (''chunk_'' @ fst a) (''chunk_'' @ fst b)) cs
                = sort_key (\<lambda>c. dec_val (fst c)) cs)"
proof -
  have given: "\<forall>c \<in> set cs. fst c \<noteq> []"
    using assms(6) by (simp add: valid_index_given)
  note assembled = assemble_after_uploads [OF assms(1,2,3,4,5) given, of rnd' rnd now]
  have numeric: "sort_key (\<lambda>c. ckey (''chunk_'' @ fst c)) cs = sort_key (\<lambda>c. dec_val (fst c)) cs"
    if "\<forall>c \<in> set cs. list_all is_digit (fst c) \<and> length (fst c) = w"
  proof (rule sort_key_same_order, intro ballI)
    fix x y assume "x \<in> set cs" "y \<in> set cs"
    with that have "length (fst x) = length (fst y)"
      and "list_all is_digit (fst x)" and "list_all is_digit (fst y)"
      by simp_all
    then have "ckey (''chunk_'' @ fst x @ []) \<le> ckey (''chunk_'' @ fst y @ [])
        \<longleftrightarrow> dec_val (fst x) \<le> dec_val (fst y)"
      by (rule framed_digits_order)
    then show "ckey (''chunk_'' @ fst x) \<le> ckey (''chunk_'' @ fst y)
        \<longleftrightarrow> dec_val (fst x) \<le> dec_val (fst y)"
      by simp
  qed
  show ?thesis
    using numeric by (simp add: assembled sort_by_names)
qed

text \<open>
  C7. For a non-empty set of chunks with pairwise distinct indices (of printable
  characters without a slash, the names for which the comparison is modelled), uploaded
  to a fresh session, assembling produces the artifact, and the artifact does not depend
  on the order in which the chunks arrived. For any permutation \<open>cs'\<close> of \<open>cs\<close>, among
  them the ascending one, both runs answer with the same registry key and end in the
  same state, in which the key is registered for the artifact and the artifact holds
  the bytes of all the chunks, each once, in the order of their stored names.
\<close>

theorem assemble_any_arrival_order:
  assumes "uid \<noteq> []" and "filename \<noteq> []" and "chunk_dirs s uid = None"
    and "cs \<noteq> []" and "distinct (map fst cs)" and "\<forall>c \<in> set cs. valid_index (fst c)"
    and "mset cs' = mset cs"
  shows "\<exists>s'. assemble_upload rnd' (upload_chunks rnd1 now1 s uid cs')
                \<lparr>ar_uploadId = Some uid, ar_filename = Some filename\<rparr>
              = (s', Assembled (makeTempKey uid filename))
          \<and> assemble_upload rnd' (upload_chunks rnd2 now2 s uid cs)
                \<lparr>ar_uploadId = Some uid, ar_filename = Some filename\<rparr>
              = (s', Assembled (makeTempKey uid filename))
          \<and> tempStore s' (makeTempKey uid filename)
              = Some (''assembled_uploads/'' @ rnd' @ ''_'' @ basename filename)
          \<and> files s' (''assembled_uploads/'' @ rnd' @ ''_'' @ basename filename)
              = Some (concat (map snd
                  (sort_by (\<lambda>a b. localeCompare (''chunk_'' @ fst a) (''chunk_'' @ fst b)) cs)))
          \<and> mset (sort_by (\<lambda>a b. localeCompare (''chunk_'' @ fst a) (''chunk_'' @ fst b)) cs)
              = mset cs"
proof -
  from assms(4,7) have ne: "cs' \<noteq> []" by auto
  have set_eq: "set cs' = set cs"
    using assms(7) by (rule mset_eq_setD)
  have "mset (map fst cs') = mset (map fst cs)"
    using assms(7) by simp
  then have "distinct (map fst cs') \<longleftrightarrow> distinct (map fst cs)"
    by (rule mset_eq_imp_distinct_iff)
  with assms(5) have dist: "distinct (map fst cs')"
    by (rule iffD2 [rotated])
  have given: "\<forall>c \<in> set cs. fst c \<noteq> []"
    using assms(6) by (simp add: valid_index_given)
  then have given': "\<forall>c \<in> set cs'. fst c \<noteq> []"
    by (simp only: set_eq)
  have same: "sort_key (\<lambda>c. ckey (''chunk_'' @ fst c)) cs' = sort_key (\<lambda>c. ckey (''chunk_'' @ fst c)) cs"
    using assms(7) chunk_name_key_inj [OF dist] by (rule sort_key_permuted)
  let ?out = "''assembled_uploads/'' @ rnd' @ ''_'' @ basename filename"
  let ?data = "concat (map snd (sort_key (\<lambda>c. ckey (''chunk_'' @ fst c)) cs))"
  let ?s' = "s\<lparr>files := (files s)(?out \<mapsto> ?data),
               tempStore := (tempStore s)(makeTempKey uid filename \<mapsto> ?out)\<rparr>"
  have run': "assemble_upload rnd' (upload_chunks rnd1 now1 s uid cs')
        \<lparr>ar_uploadId = Some uid, ar_filename = Some filename\<rparr>
      = (?s', Assembled (makeTempKey uid filename))"
    unfolding assemble_after_uploads [OF assms(1,2,3) ne dist given'] same ..
  have run: "assemble_upload rnd' (upload_chunks rnd2 now2 s uid cs)
        \<lparr>ar_uploadId = Some uid, ar_filename = Some filename\<rparr>
      = (?s', Assembled (makeTempKey uid filename))"
    by (rule assemble_after_uploads [OF assms(1,2,3,4,5) given])
  have key: "tempStore ?s' (makeTempKey uid filename) = Some ?out"
    by simp
  have content: "files ?s' ?out = Some (concat (map snd
      (sort_by (\<lambda>a b. localeCompare (''chunk_'' @ fst a) (''chunk_'' @ fst b)) cs)))"
    by (simp add: sort_by_names)
  have all: "mset (sort_by (\<lambda>a b. localeCompare (''chunk_'' @ fst a) (''chunk_'' @ fst b)) cs)
      = mset cs"
    by (simp add: sort_by_names)
  from run' run key content all show ?thesis
    by (intro exI [of _ ?s'] conjI)
qed

lemma basename_plain: "basename ''f.bin'' = ''f.bin''"
  by (simp add: basename_def)

lemma fresh_server: "chunk_dirs empty_server uid = None"
  by (simp add: empty_server_def)

lemma padded_indices_valid:
  "\<forall>c \<in> set [(''02'', ''B''), (''10'', ''J''), (''01'', ''A'')]. valid_index (fst c)"
  by code_simp

lemma padded_indices_digits:
  "\<forall>c \<in> set [(''02'', ''B''), (''10'', ''J''), (''01'', ''A'')].
     list_all is_digit (fst c) \<and> length (fst c) = 2"
  by code_simp

lemma padded_indices_sorted:
  "sort_by (\<lambda>a b. localeCompare (''chunk_'' @ fst a) (''chunk_'' @ fst b))
     [(''02'', ''B''), (''10'', ''J''), (''01'', ''A'')]
   = [(''01'', ''A''), (''02'', ''B''), (''10'', ''J'')]"
  by code_simp

theorem assemble_in_name_order_witness:
  "''u1'' \<noteq> [] \<and> ''f.bin'' \<noteq> [] \<and> chunk_dirs empty_server ''u1'' = None
   \<and> [(''02'', ''B''), (''10'', ''J''), (''01'', ''A'')] \<noteq> []
   \<and> distinct (map fst [(''02'', ''B''), (''10'', ''J''), (''01'', ''A'')])
   \<and> valid_index ''02'' \<and> valid_index ''10'' \<and> valid_index ''01''
   \<and> list_all is_digit ''02'' \<and> list_all is_digit ''10'' \<and> list_all is_digit ''01''
   \<and> length ''02'' = 2 \<and> length ''10'' = 2 \<and> length ''01'' = 2
   \<and> (\<exists>s'. assemble_upload ''00''
              (upload_chunks ''r'' 0 empty_server ''u1'' [(''02'', ''B''), (''10'', ''J''), (''01'', ''A'')])
              \<lparr>ar_uploadId = Some ''u1'', ar_filename = Some ''f.bin''\<rparr>
            = (s', Assembled ''u1__f.bin'')
          \<and> files s' ''assembled_uploads/00_f.bin'' = Some ''ABJ''
          \<and> sort_by (\<lambda>a b. localeCompare (''chunk_'' @ fst a) (''chunk_'' @ fst b))
               [(''02'', ''B''), (''10'', ''J''), (''01'', ''A'')]
             = sort_key (\<lambda>c. dec_val (fst c)) [(''02'', ''B''), (''10'', ''J''), (''01'', ''A'')])"
proof -
  let ?cs = "[(''02'', ''B''), (''10'', ''J''), (''01'', ''A'')]"
  have a: "''u1'' \<noteq> []" and b: "''f.bin'' \<noteq> []" and d: "?cs \<noteq> []"
    and e: "distinct (map fst ?cs)"
    by simp_all
  from assemble_in_name_order [OF a b fresh_server d e padded_indices_valid, of "''00''" "''r''" 0 2]
  obtain s' where
    p1: "assemble_upload ''00'' (upload_chunks ''r'' 0 empty_server ''u1'' ?cs)
          \<lparr>ar_uploadId = Some ''u1'', ar_filename = Some ''f.bin''\<rparr>
        = (s', Assembled (makeTempKey ''u1'' ''f.bin''))"
    and p2: "files s' (''assembled_uploads/'' @ ''00'' @ ''_'' @ basename ''f.bin'')
        = Some (concat (map snd
            (sort_by (\<lambda>a b. localeCompare (''chunk_'' @ fst a) (''chunk_'' @ fst b)) ?cs)))"
    and p3: "(\<forall>c \<in> set ?cs. list_all is_digit (fst c) \<and> length (fst c) = 2) \<longrightarrow>
        sort_by (\<lambda>a b. localeCompare (''chunk_'' @ fst a) (''chunk_'' @ fst b)) ?cs
        = sort_key (\<lambda>c. dec_val (fst c)) ?cs"
    by blast
  have r1: "assemble_upload ''00'' (upload_chunks ''r'' 0 empty_server ''u1'' ?cs)
          \<lparr>ar_uploadId = Some ''u1'', ar_filename = Some ''f.bin''\<rparr>
        = (s', Assembled ''u1__f.bin'')"
    using p1 by (simp add: makeTempKey_def basename_plain)
  have r2: "files s' ''assembled_uploads/00_f.bin'' = Some ''ABJ''"
    using p2 unfolding padded_indices_sorted basename_plain by simp
  have r3: "sort_by (\<lambda>a b. localeCompare (''chunk_'' @ fst a) (''chunk_'' @ fst b)) ?cs
        = sort_key (\<lambda>c. dec_val (fst c)) ?cs"
    using p3 padded_indices_digits by (rule mp)
  have v: "valid_index ''02''" "valid_index ''10''" "valid_index ''01''"
    using padded_indices_valid by simp_all
  have g: "list_all is_digit ''02''" "list_all is_digit ''10''" "list_all is_digit ''01''"
    using padded_indices_digits by simp_all
  from a b fresh_server d e v g r1 r2 r3
  show ?thesis by (intro conjI exI [of _ s']) simp_all
qed

lemma plain_indices_valid:
  "\<forall>c \<in> set [(''1'', ''A''), (''2'', ''B''), (''10'', ''J'')]. valid_index (fst c)"
  by code_simp

lemma plain_indices_sorted:
  "sort_by (\<lambda>a b. localeCompare (''chunk_'' @ fst a) (''chunk_'' @ fst b))
     [(''1'', ''A''), (''2'', ''B''), (''10'', ''J'')]
   = [(''1'', ''A''), (''10'', ''J''), (''2'', ''B'')]"
  by code_simp

theorem assemble_any_arrival_order_witness:
  "''u1'' \<noteq> [] \<and> ''f.bin'' \<noteq> [] \<and> chunk_dirs empty_server ''u1'' = None
   \<and> [(''1'', ''A''), (''2'', ''B''), (''10'', ''J'')] \<noteq> []
   \<and> distinct (map fst [(''1'', ''A''), (''2'', ''B''), (''10'', ''J'')])
   \<and> valid_index ''1'' \<and> valid_index ''2'' \<and> valid_index ''10''
   \<and> mset [(''2'', ''B''), (''10'', ''J''), (''1'', ''A'')]
       = mset [(''1'', ''A''), (''2'', ''B''), (''10'', ''J'')]
   \<and> (\<exists>s'. assemble_upload ''00''
              (upload_chunks ''r'' 0 empty_server ''u1'' [(''2'', ''B''), (''10'', ''J''), (''1'', ''A'')])
              \<lparr>ar_uploadId = Some ''u1'', ar_filename = Some ''f.bin''\<rparr>
            = (s', Assembled ''u1__f.bin'')
          \<and> assemble_upload ''00''
              (upload_chunks ''q'' 7 empty_server ''u1'' [(''1'', ''A''), (''2'', ''B''), (''10'', ''J'')])
              \<lparr>ar_uploadId = Some ''u1'', ar_filename = Some ''f.bin''\<rparr>
            = (s', Assembled ''u1__f.bin'')
          \<and> tempStore s' ''u1__f.bin'' = Some ''assembled_uploads/00_f.bin''
          \<and> files s' ''assembled_uploads/00_f.bin'' = Some ''AJB'')"
proof -
  let ?cs = "[(''1'', ''A''), (''2'', ''B''), (''10'', ''J'')]"
  let ?cs' = "[(''2'', ''B''), (''10'', ''J''), (''1'', ''A'')]"
  have a: "''u1'' \<noteq> []" and b: "''f.bin'' \<noteq> []" and d: "?cs \<noteq> []"
    and e: "distinct (map fst ?cs)"
    by simp_all
  have m: "mset ?cs' = mset ?cs"
    by (simp add: add_mset_commute)
  have v: "valid_index ''1''" "valid_index ''2''" "valid_index ''10''"
    using plain_indices_valid by simp_all
  have k: "makeTempKey ''u1'' ''f.bin'' = ''u1__f.bin''"
    by (simp add: makeTempKey_def basename_plain)
  have o: "''assembled_uploads/'' @ ''00'' @ ''_'' @ basename ''f.bin'' = ''assembled_uploads/00_f.bin''"
    by (simp add: basename_plain)
  have c: "concat (map snd (sort_by (\<lambda>a b. localeCompare (''chunk_'' @ fst a) (''chunk_'' @ fst b)) ?cs))
      = ''AJB''"
    unfolding plain_indices_sorted by simp
  from assemble_any_arrival_order [OF a b fresh_server d e plain_indices_valid m,
      of "''00''" "''r''" 0 "''q''" 7]
  obtain s' where
    "assemble_upload ''00'' (upload_chunks ''r'' 0 empty_server ''u1'' ?cs')
        \<lparr>ar_uploadId = Some ''u1'', ar_filename = Some ''f.bin''\<rparr> = (s', Assembled ''u1__f.bin'')"
    and "assemble_upload ''00'' (upload_chunks ''q'' 7 empty_server ''u1'' ?cs)
        \<lparr>ar_uploadId = Some ''u1'', ar_filename = Some ''f.bin''\<rparr> = (s', Assembled ''u1__f.bin'')"
    and "tempStore s' ''u1__f.bin'' = Some ''assembled_uploads/00_f.bin''"
    and "files s' ''assembled_uploads/00_f.bin'' = Some ''AJB''"
    unfolding k o c by blast
  with a b fresh_server d e v m show ?thesis
    by (intro conjI exI [of _ s'])
qed

section \<open>Decimal numerals\<close>










section \<open>The archive of page images\<close>

























end
